theory Spec2Isabelle
  imports Main
begin

section \<open>The speech synthesis service: \<open>getTextToSpeechAudio\<close> (services/geminiService)\<close>

text \<open>
  The response of \<open>ai.models.generateContent\<close> as far as the code reads it:
  \<open>response.candidates?.[0]?.content?.parts?.[0]?.inlineData?.data\<close>. Every link of
  the chain may be absent (\<open>undefined\<close>), which is \<open>None\<close> here.
\<close>

datatype inlineData = InlineData (data: "string option")

datatype part = Part (inlineData: "inlineData option")

datatype content = Content (parts: "part list option")

datatype candidate = Candidate (content: "content option")

datatype response = Response (candidates: "candidate list option")

text \<open>The remote call either rejects or resolves with a response.\<close>

datatype remoteResult = RemoteError | RemoteResponse response

datatype error = Error string

text \<open>\<open>xs?.[0]\<close>: absent when the array is absent or empty.\<close>

fun first :: "'a list option \<Rightarrow> 'a option" where
  "first None = None"
| "first (Some []) = None"
| "first (Some (x # xs)) = Some x"

text \<open>\<open>x?.f\<close>: absent when \<open>x\<close> is absent.\<close>

fun chain :: "'a option \<Rightarrow> ('a \<Rightarrow> 'b option) \<Rightarrow> 'b option" where
  "chain None f = None"
| "chain (Some x) f = f x"

definition base64Audio :: "response \<Rightarrow> string option" where
  "base64Audio r =
     chain (chain (chain (chain (first (candidates r)) content) (\<lambda>c. first (parts c)))
       inlineData) data"

text \<open>The prompt sent to the model for one text and language.\<close>

definition ttsPrompt :: "string \<Rightarrow> string \<Rightarrow> string" where
  "ttsPrompt text language =
     ''In a clear, professional voice, say the following in '' @ language @ '': '' @ text"

text \<open>
  The body of the \<open>try\<close> block: the remote call (a parameter, applied to the prompt),
  then the payload check \<open>if (!base64Audio) throw\<close>, where the empty string is falsy too.
\<close>

definition ttsTry :: "(string \<Rightarrow> remoteResult) \<Rightarrow> string \<Rightarrow> string \<Rightarrow> error + string" where
  "ttsTry remote text language =
     (case remote (ttsPrompt text language) of
        RemoteError \<Rightarrow> Inl (Error ''remote call failed'')
      | RemoteResponse r \<Rightarrow>
          (case base64Audio r of
             None \<Rightarrow> Inl (Error ''No audio data received from API.'')
           | Some d \<Rightarrow>
               if d = [] then Inl (Error ''No audio data received from API.'')
               else Inr d))"

text \<open>The \<open>catch\<close> block replaces whatever was thrown by one generic error.\<close>

definition getTextToSpeechAudio ::
  "(string \<Rightarrow> remoteResult) \<Rightarrow> string \<Rightarrow> string \<Rightarrow> error + string" where
  "getTextToSpeechAudio remote text language =
     (case ttsTry remote text language of
        Inl e \<Rightarrow> Inl (Error ''Failed to generate speech from the AI.'')
      | Inr d \<Rightarrow> Inr d)"

section \<open>The audio state shared by both components\<close>

type_synonym bytes = "nat list"

type_synonym audioBuffer = "int list"

datatype contextState = Running | Suspended | Closed

text \<open>
  An \<open>AudioBufferSourceNode\<close>: its buffer, whether an \<open>onended\<close> handler is attached,
  and where it is in its life. \<open>Stopped\<close> is a node whose \<open>stop()\<close> was called and
  whose \<open>ended\<close> event has not been dispatched yet.
\<close>

datatype nodeStatus = Playing | Stopped | Finished

record sourceNode =
  buffer :: audioBuffer
  onended :: bool
  status :: nodeStatus

text \<open>
  The suspension points of the asynchronous playback code: awaiting the synthesis of a
  text, awaiting \<open>context.resume()\<close> (holding the audio data), awaiting the call
  \<open>decodeAudioData(decodedBytes, context, sampleRate, numChannels)\<close> that was made
  with these bytes, sample rate and channels.
\<close>

datatype stage =
    AwaitSynthesis string
  | AwaitResume string
  | AwaitDecodeAudioData bytes nat nat

text \<open>What the component does to its collaborators and to its visible state, in order.\<close>

datatype effect =
    CallSynthesis string string
  | NewAudioContext nat
  | ContextResume
  | ContextSuspend
  | CallDecodeAudioData bytes nat nat
  | SourceStart nat
  | SourceStop nat
  | SourceDisconnect nat
  | SourceEnded nat
  | SetIsSpeaking bool
  | SetError "string option"

text \<open>
  The React state and refs of a component (\<open>isSpeaking\<close>, \<open>error\<close>, \<open>language\<close>,
  \<open>audioContextRef\<close>, \<open>audioSourceRef\<close>), and its surroundings: the continuations
  waiting at an \<open>await\<close>, the source nodes created so far, and the trace of effects.
\<close>

record player =
  isSpeaking :: bool
  error :: "string option"
  language :: string
  audioContextRef :: "contextState option"
  audioSourceRef :: "nat option"
  tasks :: "(nat \<times> stage) list"
  nextTask :: nat
  sources :: "(nat \<times> sourceNode) list"
  trace :: "effect list"

text \<open>The playback queue and the manual-stop flag exist in \<open>InvestmentPredictor\<close> only.\<close>

record predictor = player +
  audioQueueRef :: "string list"
  isStoppedManuallyRef :: bool

definition emit :: "effect \<Rightarrow> 'a player_scheme \<Rightarrow> 'a player_scheme" where
  "emit e s = s\<lparr>trace := trace s @ [e]\<rparr>"

definition setIsSpeaking :: "bool \<Rightarrow> 'a player_scheme \<Rightarrow> 'a player_scheme" where
  "setIsSpeaking b s = emit (SetIsSpeaking b) (s\<lparr>isSpeaking := b\<rparr>)"

definition setError :: "string option \<Rightarrow> 'a player_scheme \<Rightarrow> 'a player_scheme" where
  "setError e s = emit (SetError e) (s\<lparr>error := e\<rparr>)"

text \<open>A call of an async function gets a fresh task number; it keeps it across awaits.\<close>

definition park :: "nat \<Rightarrow> stage \<Rightarrow> 'a player_scheme \<Rightarrow> 'a player_scheme" where
  "park t st s = s\<lparr>tasks := tasks s @ [(t, st)]\<rparr>"

definition spawn :: "stage \<Rightarrow> 'a player_scheme \<Rightarrow> 'a player_scheme" where
  "spawn st s = park (nextTask s) st (s\<lparr>nextTask := Suc (nextTask s)\<rparr>)"

definition unpark :: "nat \<Rightarrow> 'a player_scheme \<Rightarrow> 'a player_scheme" where
  "unpark t s = s\<lparr>tasks := filter (\<lambda>p. fst p \<noteq> t) (tasks s)\<rparr>"

definition setNode :: "nat \<Rightarrow> sourceNode \<Rightarrow> 'a player_scheme \<Rightarrow> 'a player_scheme" where
  "setNode i n s = s\<lparr>sources := map (\<lambda>p. if fst p = i then (i, n) else p) (sources s)\<rparr>"

text \<open>\<open>source.stop()\<close>: a playing node stops and owes its \<open>ended\<close> event.\<close>

definition sourceStop :: "nat \<Rightarrow> 'a player_scheme \<Rightarrow> 'a player_scheme" where
  "sourceStop i s =
     emit (SourceStop i)
       (case map_of (sources s) i of
          None \<Rightarrow> s
        | Some n \<Rightarrow> if status n = Playing then setNode i (n\<lparr>status := Stopped\<rparr>) s else s)"

definition sourceDisconnect :: "nat \<Rightarrow> 'a player_scheme \<Rightarrow> 'a player_scheme" where
  "sourceDisconnect i s = emit (SourceDisconnect i) s"

definition detachOnended :: "nat \<Rightarrow> 'a player_scheme \<Rightarrow> 'a player_scheme" where
  "detachOnended i s =
     (case map_of (sources s) i of
        None \<Rightarrow> s
      | Some n \<Rightarrow> setNode i (n\<lparr>onended := False\<rparr>) s)"

text \<open>
  \<open>createBufferSource\<close>, \<open>buffer =\<close>, \<open>connect\<close>, \<open>onended =\<close>, \<open>start()\<close> and the
  assignment to \<open>audioSourceRef.current\<close>: the new node is numbered by its position.
\<close>

definition startSource :: "audioBuffer \<Rightarrow> 'a player_scheme \<Rightarrow> 'a player_scheme" where
  "startSource b s =
     (let i = length (sources s)
      in (emit (SourceStart i)
            (s\<lparr>sources := sources s @ [(i, \<lparr>buffer = b, onended = True, status = Playing\<rparr>)]\<rparr>))
         \<lparr>audioSourceRef := Some i\<rparr>)"

text \<open>
  Lines 66-68 (46-48 in \<open>FinanceAdvisor\<close>): a context is created, at 24000 Hz, when
  there is none or it is closed.
\<close>

definition ensureContext :: "'a player_scheme \<Rightarrow> 'a player_scheme" where
  "ensureContext s =
     (if audioContextRef s = None \<or> audioContextRef s = Some Closed
      then emit (NewAudioContext 24000) (s\<lparr>audioContextRef := Some Running\<rparr>)
      else s)"

text \<open>
  The guarded \<open>suspend()\<close> at the end of both \<open>stopPlayback\<close> functions. The context
  counts as suspended from the call on.
\<close>

definition suspendContext :: "'a player_scheme \<Rightarrow> 'a player_scheme" where
  "suspendContext s =
     (case audioContextRef s of
        None \<Rightarrow> s
      | Some c \<Rightarrow>
          if c \<noteq> Closed then emit ContextSuspend (s\<lparr>audioContextRef := Some Suspended\<rparr>)
          else s)"

text \<open>Sound comes out of a node that is playing in a running context.\<close>

definition activeSources :: "'a player_scheme \<Rightarrow> nat list" where
  "activeSources s =
     (if audioContextRef s = Some Running
      then map fst (filter (\<lambda>p. status (snd p) = Playing) (sources s))
      else [])"

section \<open>\<open>InvestmentPredictor\<close>: the queued playback\<close>

datatype level = High | Medium | Low

datatype trend = Up | Down | Stable

record portfolioAnalysisItem =
  name :: string
  currentAnalysis :: string
  futureOutlook :: string
  confidence :: level
  prediction :: trend

record portfolioPrediction =
  portfolioAnalysis :: "portfolioAnalysisItem list"
  overallSummary :: string

definition textChunks :: "portfolioPrediction \<Rightarrow> string list" where
  "textChunks p =
     (''Here is the overall summary of your portfolio prediction: '' @ overallSummary p)
     # map (\<lambda>item. name item @ ''. Analysis: '' @ currentAnalysis item
                   @ ''. Outlook: '' @ futureOutlook item)
         (portfolioAnalysis p)"

text \<open>The \<open>catch\<close> block of \<open>playNextInQueue\<close>.\<close>

definition catchSegment :: "predictor \<Rightarrow> predictor" where
  "catchSegment s =
     setIsSpeaking False (setError (Some ''Failed to generate or play audio for a segment.'') s)"

text \<open>
  \<open>playNextInQueue\<close> up to its first \<open>await\<close>. In the code the function is a
  \<open>useCallback\<close> over \<open>language\<close>, and an \<open>onended\<close> handler calls the
  function of the render that created it, so a session keeps the language it started
  with. No event here changes the language, so that language is the state's.
\<close>

definition playNextInQueue :: "predictor \<Rightarrow> predictor" where
  "playNextInQueue s =
     (if isStoppedManuallyRef s \<or> audioQueueRef s = []
      then (setIsSpeaking False s)\<lparr>isStoppedManuallyRef := False\<rparr>
      else
        (case audioQueueRef s of
           [] \<Rightarrow> s
         | text # rest \<Rightarrow>
             (let s1 = s\<lparr>audioQueueRef := rest\<rparr>
              in if text = [] then s1
                 else spawn (AwaitSynthesis text) (emit (CallSynthesis text (language s1)) s1))))"

text \<open>
  After \<open>decodeAudioData\<close> resolved: the new source is started with an \<open>onended\<close>
  handler that calls \<open>playNextInQueue\<close> again.
\<close>

definition afterDecodeAudioData :: "audioBuffer \<Rightarrow> predictor \<Rightarrow> predictor" where
  "afterDecodeAudioData b s = startSource b s"

text \<open>
  After the context is known to run: \<open>decode\<close> (a parameter: \<open>utils/audio\<close>; \<open>None\<close>
  when it throws), then the call of \<open>decodeAudioData\<close> with 24000 and 1.
\<close>

definition afterResume :: "(string \<Rightarrow> bytes option) \<Rightarrow> nat \<Rightarrow> string \<Rightarrow> predictor \<Rightarrow> predictor" where
  "afterResume decode t audioData s =
     (case decode audioData of
        None \<Rightarrow> catchSegment s
      | Some decodedBytes \<Rightarrow>
          park t (AwaitDecodeAudioData decodedBytes 24000 1)
            (emit (CallDecodeAudioData decodedBytes 24000 1) s))"

text \<open>After the synthesis resolved with audio data.\<close>

definition afterSynthesis :: "(string \<Rightarrow> bytes option) \<Rightarrow> nat \<Rightarrow> string \<Rightarrow> predictor \<Rightarrow> predictor" where
  "afterSynthesis decode t audioData s =
     (let s1 = ensureContext s
      in if audioContextRef s1 = Some Suspended
         then park t (AwaitResume audioData) (emit ContextResume s1)
         else afterResume decode t audioData s1)"

text \<open>The \<open>onended\<close> handler of a source of \<open>playNextInQueue\<close>.\<close>

definition onendedSegment :: "predictor \<Rightarrow> predictor" where
  "onendedSegment s = playNextInQueue (s\<lparr>audioSourceRef := None\<rparr>)"

definition stopPlayback :: "predictor \<Rightarrow> predictor" where
  "stopPlayback s =
     (let s1 = s\<lparr>isStoppedManuallyRef := True, audioQueueRef := []\<rparr>;
          s2 = (case audioSourceRef s1 of
                  None \<Rightarrow> s1
                | Some i \<Rightarrow>
                    (sourceDisconnect i (sourceStop i (detachOnended i s1)))
                    \<lparr>audioSourceRef := None\<rparr>)
      in setIsSpeaking False (suspendContext s2))"

definition handleSpeak :: "portfolioPrediction option \<Rightarrow> predictor \<Rightarrow> predictor" where
  "handleSpeak prd s =
     (case prd of
        None \<Rightarrow> s
      | Some p \<Rightarrow>
          if isSpeaking s then stopPlayback s
          else
            (let s1 = setIsSpeaking True (setError None s);
                 s2 = s1\<lparr>isStoppedManuallyRef := False\<rparr>;
                 s3 = s2\<lparr>audioQueueRef := textChunks p\<rparr>
             in playNextInQueue s3))"

text \<open>The cleanup of the unmount effect (lines 129-134).\<close>

definition unmount :: "predictor \<Rightarrow> predictor" where
  "unmount s = stopPlayback s"

text \<open>
  What can happen to a component: the user presses the speak button, a caller
  (\<open>handleSubmit\<close>) stops playback, the view is unmounted, a pending synthesis, resume or
  decoding settles, a source node dispatches \<open>ended\<close>. The type parameter is what
  the component speaks about.
\<close>

datatype 'p event =
    HandleSpeak "'p option"
  | StopPlayback
  | Unmount
  | SynthesisSettled nat remoteResult
  | ResumeSettled nat bool
  | DecodeAudioDataSettled nat "audioBuffer option"
  | Ended nat

text \<open>
  The \<open>ended\<close> event of a node: due when the node plays in a running context or was
  stopped; it runs the handler when one is attached.
\<close>

definition endedDue :: "'a player_scheme \<Rightarrow> sourceNode \<Rightarrow> bool" where
  "endedDue s n =
     (status n = Stopped \<or> (status n = Playing \<and> audioContextRef s = Some Running))"

definition step ::
  "(string \<Rightarrow> bytes option) \<Rightarrow> portfolioPrediction event \<Rightarrow> predictor \<Rightarrow> predictor" where
  "step decode ev s =
     (case ev of
        HandleSpeak p \<Rightarrow> handleSpeak p s
      | StopPlayback \<Rightarrow> stopPlayback s
      | Unmount \<Rightarrow> unmount s
      | SynthesisSettled t r \<Rightarrow>
          (case map_of (tasks s) t of
             Some (AwaitSynthesis text) \<Rightarrow>
               (case getTextToSpeechAudio (\<lambda>_. r) text (language s) of
                  Inl e \<Rightarrow> catchSegment (unpark t s)
                | Inr audioData \<Rightarrow> afterSynthesis decode t audioData (unpark t s))
           | _ \<Rightarrow> s)
      | ResumeSettled t ok \<Rightarrow>
          (case map_of (tasks s) t of
             Some (AwaitResume audioData) \<Rightarrow>
               if ok then afterResume decode t audioData
                            ((unpark t s)\<lparr>audioContextRef := Some Running\<rparr>)
               else catchSegment (unpark t s)
           | _ \<Rightarrow> s)
      | DecodeAudioDataSettled t r \<Rightarrow>
          (case map_of (tasks s) t of
             Some (AwaitDecodeAudioData decodedBytes rate channels) \<Rightarrow>
               (case r of
                  None \<Rightarrow> catchSegment (unpark t s)
                | Some b \<Rightarrow> afterDecodeAudioData b (unpark t s))
           | _ \<Rightarrow> s)
      | Ended i \<Rightarrow>
          (case map_of (sources s) i of
             None \<Rightarrow> s
           | Some n \<Rightarrow>
               if endedDue s n
               then (let s1 = emit (SourceEnded i) (setNode i (n\<lparr>status := Finished\<rparr>) s)
                     in if onended n then onendedSegment s1 else s1)
               else s))"

definition exec ::
  "(string \<Rightarrow> bytes option) \<Rightarrow> portfolioPrediction event list \<Rightarrow> predictor \<Rightarrow> predictor" where
  "exec decode evs s = foldl (\<lambda>s ev. step decode ev s) s evs"

text \<open>The component as mounted: the initial values of its state and refs.\<close>

definition initial :: predictor where
  "initial =
     \<lparr>isSpeaking = False, error = None, language = ''English'', audioContextRef = None,
      audioSourceRef = None, tasks = [], nextTask = 0, sources = [], trace = [],
      audioQueueRef = [], isStoppedManuallyRef = False\<rparr>"

section \<open>\<open>FinanceAdvisor\<close>: the single playback\<close>

text \<open>
  The fields \<open>name\<close>, \<open>confidence\<close> and \<open>prediction\<close> of a recommendation carry the
  prefix \<open>rec\<close> here, the names being taken by the portfolio item above.
\<close>

record recommendation =
  category :: string
  recName :: string
  rationale :: string
  recConfidence :: level
  recPrediction :: trend

record financialAdvice =
  summary :: string
  recommendations :: "recommendation list"

fun join :: "string \<Rightarrow> string list \<Rightarrow> string" where
  "join sep [] = []"
| "join sep [x] = x"
| "join sep (x # y # ys) = x @ sep @ join sep (y # ys)"

definition fullTextToSpeak :: "financialAdvice \<Rightarrow> string" where
  "fullTextToSpeak advice =
     summary advice @ '' Here are the recommendations. ''
     @ join ''. '' (map (\<lambda>r. category r @ '': '' @ recName r @ ''. Rationale: '' @ rationale r)
                      (recommendations advice))"

definition advisorStopPlayback :: "player \<Rightarrow> player" where
  "advisorStopPlayback s =
     (let s1 = (case audioSourceRef s of
                  None \<Rightarrow> s
                | Some i \<Rightarrow> (sourceDisconnect i (sourceStop i s))\<lparr>audioSourceRef := None\<rparr>)
      in setIsSpeaking False (suspendContext s1))"

definition advisorCatch :: "player \<Rightarrow> player" where
  "advisorCatch s = setIsSpeaking False (setError (Some ''Failed to generate or play audio.'') s)"

text \<open>\<open>handleSpeak\<close> up to its first \<open>await\<close>.\<close>

definition advisorHandleSpeak :: "financialAdvice option \<Rightarrow> player \<Rightarrow> player" where
  "advisorHandleSpeak adv s =
     (case adv of
        None \<Rightarrow> s
      | Some advice \<Rightarrow>
          if isSpeaking s then advisorStopPlayback s
          else
            (let s1 = setError None (setIsSpeaking True s)
             in spawn (AwaitSynthesis (fullTextToSpeak advice))
                  (emit (CallSynthesis (fullTextToSpeak advice) (language s1)) s1)))"

text \<open>Any previous sound is stopped (its handler stays attached), then the new one starts.\<close>

definition advisorAfterDecodeAudioData :: "audioBuffer \<Rightarrow> player \<Rightarrow> player" where
  "advisorAfterDecodeAudioData b s =
     startSource b (case audioSourceRef s of None \<Rightarrow> s | Some i \<Rightarrow> sourceStop i s)"

definition advisorAfterResume ::
  "(string \<Rightarrow> bytes option) \<Rightarrow> nat \<Rightarrow> string \<Rightarrow> player \<Rightarrow> player" where
  "advisorAfterResume decode t audioData s =
     (case decode audioData of
        None \<Rightarrow> advisorCatch s
      | Some decodedBytes \<Rightarrow>
          park t (AwaitDecodeAudioData decodedBytes 24000 1)
            (emit (CallDecodeAudioData decodedBytes 24000 1) s))"

definition advisorAfterSynthesis ::
  "(string \<Rightarrow> bytes option) \<Rightarrow> nat \<Rightarrow> string \<Rightarrow> player \<Rightarrow> player" where
  "advisorAfterSynthesis decode t audioData s =
     (let s1 = ensureContext s
      in if audioContextRef s1 = Some Suspended
         then park t (AwaitResume audioData) (emit ContextResume s1)
         else advisorAfterResume decode t audioData s1)"

definition advisorOnended :: "player \<Rightarrow> player" where
  "advisorOnended s = (setIsSpeaking False s)\<lparr>audioSourceRef := None\<rparr>"

text \<open>
  \<open>FinanceAdvisor\<close> registers no effect (it does not import \<open>useEffect\<close>), so nothing of
  the component runs when it is unmounted.
\<close>

definition advisorUnmount :: "player \<Rightarrow> player" where
  "advisorUnmount s = s"

definition advisorStep ::
  "(string \<Rightarrow> bytes option) \<Rightarrow> financialAdvice event \<Rightarrow> player \<Rightarrow> player" where
  "advisorStep decode ev s =
     (case ev of
        HandleSpeak a \<Rightarrow> advisorHandleSpeak a s
      | StopPlayback \<Rightarrow> advisorStopPlayback s
      | Unmount \<Rightarrow> advisorUnmount s
      | SynthesisSettled t r \<Rightarrow>
          (case map_of (tasks s) t of
             Some (AwaitSynthesis text) \<Rightarrow>
               (case getTextToSpeechAudio (\<lambda>_. r) text (language s) of
                  Inl e \<Rightarrow> advisorCatch (unpark t s)
                | Inr audioData \<Rightarrow> advisorAfterSynthesis decode t audioData (unpark t s))
           | _ \<Rightarrow> s)
      | ResumeSettled t ok \<Rightarrow>
          (case map_of (tasks s) t of
             Some (AwaitResume audioData) \<Rightarrow>
               if ok then advisorAfterResume decode t audioData
                            ((unpark t s)\<lparr>audioContextRef := Some Running\<rparr>)
               else advisorCatch (unpark t s)
           | _ \<Rightarrow> s)
      | DecodeAudioDataSettled t r \<Rightarrow>
          (case map_of (tasks s) t of
             Some (AwaitDecodeAudioData decodedBytes rate channels) \<Rightarrow>
               (case r of
                  None \<Rightarrow> advisorCatch (unpark t s)
                | Some b \<Rightarrow> advisorAfterDecodeAudioData b (unpark t s))
           | _ \<Rightarrow> s)
      | Ended i \<Rightarrow>
          (case map_of (sources s) i of
             None \<Rightarrow> s
           | Some n \<Rightarrow>
               if endedDue s n
               then (let s1 = emit (SourceEnded i) (setNode i (n\<lparr>status := Finished\<rparr>) s)
                     in if onended n then advisorOnended s1 else s1)
               else s))"

definition advisorExec ::
  "(string \<Rightarrow> bytes option) \<Rightarrow> financialAdvice event list \<Rightarrow> player \<Rightarrow> player" where
  "advisorExec decode evs s = foldl (\<lambda>s ev. advisorStep decode ev s) s evs"

definition advisorInitial :: player where
  "advisorInitial =
     \<lparr>isSpeaking = False, error = None, language = ''English'', audioContextRef = None,
      audioSourceRef = None, tasks = [], nextTask = 0, sources = [], trace = []\<rparr>"

section \<open>Runs and what is read off a trace\<close>

text \<open>A response that carries the audio data \<open>d\<close> where the code looks for it.\<close>

definition audioResponse :: "string \<Rightarrow> remoteResult" where
  "audioResponse d =
     RemoteResponse
       (Response (Some [Candidate (Some (Content (Some [Part (Some (InlineData (Some d)))])))]))"

text \<open>
  The events of an uninterrupted run: for each segment in turn, task \<open>t\<close> gets its audio
  data \<open>d\<close>, the context resumes (the event is ignored when task \<open>t\<close> did not wait for it),
  the decoding yields the buffer \<open>b\<close>, and source \<open>i\<close> plays to its end. No stop, no
  failure, nothing else in between.
\<close>

fun uninterrupted ::
  "nat \<Rightarrow> nat \<Rightarrow> (string \<times> audioBuffer) list \<Rightarrow> portfolioPrediction event list" where
  "uninterrupted t i [] = []"
| "uninterrupted t i ((d, b) # rest) =
     [SynthesisSettled t (audioResponse d), ResumeSettled t True,
      DecodeAudioDataSettled t (Some b), Ended i]
     @ uninterrupted (Suc t) (Suc i) rest"

text \<open>The ways the segment of task \<open>t\<close> can fail, as the events that make it fail.\<close>

datatype failure =
    SynthesisFails remoteResult
  | DecodeThrows string
  | DecodeAudioDataFails string

fun failing :: "nat \<Rightarrow> failure \<Rightarrow> portfolioPrediction event list" where
  "failing t (SynthesisFails r) = [SynthesisSettled t r]"
| "failing t (DecodeThrows d) = [SynthesisSettled t (audioResponse d), ResumeSettled t True]"
| "failing t (DecodeAudioDataFails d) =
     [SynthesisSettled t (audioResponse d), ResumeSettled t True,
      DecodeAudioDataSettled t None]"

text \<open>Whether the events really are a failure: for the given text, language and decoder.\<close>

fun fails :: "(string \<Rightarrow> bytes option) \<Rightarrow> string \<Rightarrow> string \<Rightarrow> failure \<Rightarrow> bool" where
  "fails decode text lang (SynthesisFails r) =
     (case getTextToSpeechAudio (\<lambda>_. r) text lang of Inl e \<Rightarrow> True | Inr d \<Rightarrow> False)"
| "fails decode text lang (DecodeThrows d) = (d \<noteq> [] \<and> decode d = None)"
| "fails decode text lang (DecodeAudioDataFails d) = (d \<noteq> [] \<and> decode d \<noteq> None)"

text \<open>The events that come from outside the component's own handlers.\<close>

fun external :: "'p event \<Rightarrow> bool" where
  "external (HandleSpeak p) = False"
| "external StopPlayback = False"
| "external Unmount = False"
| "external ev = True"

text \<open>
  A component at rest: not speaking, nothing awaited, no source held, every node created
  so far has ended, and the nodes are numbered by position.
\<close>

definition idle :: "'a player_scheme \<Rightarrow> bool" where
  "idle s =
     (\<not> isSpeaking s \<and> tasks s = [] \<and> audioSourceRef s = None
      \<and> map fst (sources s) = [0..<length (sources s)]
      \<and> list_all (\<lambda>p. status (snd p) = Finished) (sources s))"

text \<open>Nothing is awaited and no node owes an event: no external event can do anything.\<close>

definition quiescent :: "'a player_scheme \<Rightarrow> bool" where
  "quiescent s =
     (tasks s = [] \<and> list_all (\<lambda>p. status (snd p) = Finished) (sources s))"

text \<open>The effects a run added to the trace of the state it started from.\<close>

definition added :: "'a player_scheme \<Rightarrow> 'a player_scheme \<Rightarrow> effect list" where
  "added s s' = drop (length (trace s)) (trace s')"

text \<open>The texts sent to the synthesis service, in order.\<close>

fun synthesisCalls :: "effect list \<Rightarrow> (string \<times> string) list" where
  "synthesisCalls [] = []"
| "synthesisCalls (CallSynthesis text lang # es) = (text, lang) # synthesisCalls es"
| "synthesisCalls (e # es) = synthesisCalls es"

text \<open>
  A trace is sequential when a synthesis is requested only while none is under way and
  nothing plays, a source starts only for the synthesis under way, and a source ends only
  when it plays: the phases follow each other, they never overlap.
\<close>

datatype phase = Quiet | Synthesising | Sounding

fun sequential :: "phase \<Rightarrow> effect list \<Rightarrow> bool" where
  "sequential ph [] = True"
| "sequential ph (CallSynthesis text lang # es) = (ph = Quiet \<and> sequential Synthesising es)"
| "sequential ph (SourceStart i # es) = (ph = Synthesising \<and> sequential Sounding es)"
| "sequential ph (SourceEnded i # es) = (ph = Sounding \<and> sequential Quiet es)"
| "sequential ph (e # es) = sequential ph es"

text \<open>How often \<open>isSpeaking\<close> goes from true to false along a trace, from a value \<open>v\<close>.\<close>

fun falls :: "bool \<Rightarrow> effect list \<Rightarrow> nat" where
  "falls v [] = 0"
| "falls v (SetIsSpeaking b # es) = (if v \<and> \<not> b then 1 else 0) + falls b es"
| "falls v (e # es) = falls v es"

text \<open>The errors reported to the user.\<close>

fun reported :: "effect list \<Rightarrow> string list" where
  "reported [] = []"
| "reported (SetError (Some m) # es) = m # reported es"
| "reported (e # es) = reported es"

text \<open>The parameters of every decoding and every context in a trace.\<close>

fun mono24k :: "effect \<Rightarrow> bool" where
  "mono24k (CallDecodeAudioData b rate channels) = (rate = 24000 \<and> channels = 1)"
| "mono24k (NewAudioContext rate) = (rate = 24000)"
| "mono24k e = True"

fun isSourceStart :: "effect \<Rightarrow> bool" where
  "isSourceStart (SourceStart i) = True"
| "isSourceStart e = False"

fun isDecodeCall :: "effect \<Rightarrow> bool" where
  "isDecodeCall (CallDecodeAudioData b rate channels) = True"
| "isDecodeCall e = False"

text \<open>
  A decoder to run the components on concrete inputs (\<open>utils/audio\<close> is not among the
  sources, and the components take it as a parameter): the character codes, and a throw
  on the empty string.
\<close>

definition charCodes :: "string \<Rightarrow> bytes option" where
  "charCodes d = (if d = [] then None else Some (map of_char d))"

text \<open>A portfolio prediction with one item, and an advice with one recommendation.\<close>

definition samplePrediction :: portfolioPrediction where
  "samplePrediction =
     \<lparr>portfolioAnalysis =
        [\<lparr>name = ''AAPL'', currentAnalysis = ''strong'', futureOutlook = ''growth'',
          confidence = High, prediction = Up\<rparr>],
      overallSummary = ''Good''\<rparr>"

definition sampleAdvice :: financialAdvice where
  "sampleAdvice =
     \<lparr>summary = ''Save.'',
      recommendations =
        [\<lparr>category = ''Stocks'', recName = ''AAPL'', rationale = ''strong'',
          recConfidence = High, recPrediction = Up\<rparr>]\<rparr>"

text \<open>
  What the code does to the audio context before decoding, by the state it finds it
  in, and what \<open>stopPlayback\<close> does to it.
\<close>

fun contextEffects :: "contextState option \<Rightarrow> effect list" where
  "contextEffects None = [NewAudioContext 24000]"
| "contextEffects (Some Closed) = [NewAudioContext 24000]"
| "contextEffects (Some Suspended) = [ContextResume]"
| "contextEffects (Some Running) = []"

fun suspendEffects :: "contextState option \<Rightarrow> effect list" where
  "suspendEffects None = []"
| "suspendEffects (Some Closed) = []"
| "suspendEffects (Some c) = [ContextSuspend]"

text \<open>
  A session under way, between two segments: task \<open>t\<close>, the latest, awaits the synthesis
  of \<open>text\<close>, the queue holds \<open>q\<close>, no stop was requested, and every node so far has
  ended.
\<close>

definition session :: "predictor \<Rightarrow> nat \<Rightarrow> string \<Rightarrow> string list \<Rightarrow> bool" where
  "session s t text q =
     (tasks s = [(t, AwaitSynthesis text)] \<and> nextTask s = Suc t
      \<and> map fst (sources s) = [0..<length (sources s)]
      \<and> list_all (\<lambda>p. status (snd p) = Finished) (sources s)
      \<and> \<not> isStoppedManuallyRef s \<and> audioQueueRef s = q \<and> isSpeaking s)"

text \<open>The effects of playing one segment whose audio data decodes to \<open>bs\<close>, as source \<open>i\<close>.\<close>

definition segmentEffects :: "contextState option \<Rightarrow> nat \<Rightarrow> bytes \<Rightarrow> effect list" where
  "segmentEffects c i bs =
     contextEffects c @ [CallDecodeAudioData bs 24000 1, SourceStart i, SourceEnded i]"

text \<open>
  The effects of an uninterrupted run over the answers \<open>ans\<close>, from a session whose queue
  holds \<open>q\<close>: after each segment the next text of the queue is sent to the synthesis,
  unless the queue is empty (the session ends) or the text is (nothing more happens).
\<close>

fun runEffects ::
  "(string \<Rightarrow> bytes option) \<Rightarrow> string \<Rightarrow> contextState option \<Rightarrow> nat
     \<Rightarrow> (string \<times> audioBuffer) list \<Rightarrow> string list \<Rightarrow> effect list" where
  "runEffects decode lang c i [] q = []"
| "runEffects decode lang c i ((d, b) # ans) [] =
     segmentEffects c i (the (decode d)) @ [SetIsSpeaking False]"
| "runEffects decode lang c i ((d, b) # ans) (text # q) =
     segmentEffects c i (the (decode d))
     @ (if text = [] then []
        else CallSynthesis text lang # runEffects decode lang (Some Running) (Suc i) ans q)"

text \<open>The effects of a failing segment, before the error is reported.\<close>

fun failureEffects ::
  "(string \<Rightarrow> bytes option) \<Rightarrow> contextState option \<Rightarrow> failure \<Rightarrow> effect list" where
  "failureEffects decode c (SynthesisFails r) = []"
| "failureEffects decode c (DecodeThrows d) = contextEffects c"
| "failureEffects decode c (DecodeAudioDataFails d) =
     contextEffects c @ [CallDecodeAudioData (the (decode d)) 24000 1]"

text \<open>The answers of an uninterrupted run are audio data that the decoder accepts.\<close>

definition decodable :: "(string \<Rightarrow> bytes option) \<Rightarrow> (string \<times> audioBuffer) list \<Rightarrow> bool" where
  "decodable decode ans = list_all (\<lambda>a. fst a \<noteq> [] \<and> decode (fst a) \<noteq> None) ans"

text \<open>A task that awaits \<open>decodeAudioData\<close>.\<close>

fun awaitsDecode :: "nat \<times> stage \<Rightarrow> bool" where
  "awaitsDecode (t, AwaitDecodeAudioData decodedBytes rate channels) = True"
| "awaitsDecode (t, st) = False"


definition playingFirst :: predictor where
  "playingFirst =
     exec charCodes
       [HandleSpeak (Some samplePrediction), SynthesisSettled 0 (audioResponse ''QUJD''),
        DecodeAudioDataSettled 0 (Some [1, 2])]
       initial"

definition emptySecond :: predictor where
  "emptySecond =
     playNextInQueue (initial\<lparr>isSpeaking := True, audioQueueRef := [''A'', [], ''B'']\<rparr>)"

text \<open>
  Every decoding and every context in the trace has the fixed parameters, and no source
  was started without a decoding of its own: the started sources and the tasks that
  still await \<open>decodeAudioData\<close> are together no more than the decodings requested.
\<close>

definition decoded :: "'a player_scheme \<Rightarrow> bool" where
  "decoded s =
     (list_all mono24k (trace s)
      \<and> length (filter isSourceStart (trace s)) + length (filter awaitsDecode (tasks s))
          \<le> length (filter isDecodeCall (trace s)))"


text \<open>
  \<open>FinanceAdvisor\<close> while its sound plays; \<open>InvestmentPredictor\<close> after speak, stop
  (the same button) and the late arrival of the audio; and after speak, stop, speak and
  the arrival of both audios.
\<close>

definition advisorPlaying :: player where
  "advisorPlaying =
     advisorExec charCodes
       [HandleSpeak (Some sampleAdvice), SynthesisSettled 0 (audioResponse ''QUJD''),
        DecodeAudioDataSettled 0 (Some [1, 2])]
       advisorInitial"

definition stoppedInFlight :: predictor where
  "stoppedInFlight =
     exec charCodes
       [HandleSpeak (Some samplePrediction), HandleSpeak (Some samplePrediction),
        SynthesisSettled 0 (audioResponse ''QUJD''), DecodeAudioDataSettled 0 (Some [1, 2])]
       initial"

definition restartedInFlight :: predictor where
  "restartedInFlight =
     exec charCodes
       [HandleSpeak (Some samplePrediction), HandleSpeak (Some samplePrediction),
        HandleSpeak (Some samplePrediction),
        SynthesisSettled 0 (audioResponse ''QUJD''), SynthesisSettled 1 (audioResponse ''QUJD''),
        DecodeAudioDataSettled 0 (Some [1, 2]), DecodeAudioDataSettled 1 (Some [1, 2])]
       initial"

text \<open>\<open>FinanceAdvisor\<close> under the same events: speak, stop, speak, both audios arrive.\<close>

definition advisorRestarted :: player where
  "advisorRestarted =
     advisorExec charCodes
       [HandleSpeak (Some sampleAdvice), HandleSpeak (Some sampleAdvice),
        HandleSpeak (Some sampleAdvice),
        SynthesisSettled 0 (audioResponse ''QUJD''), SynthesisSettled 1 (audioResponse ''QUJD''),
        DecodeAudioDataSettled 0 (Some [1, 2]), DecodeAudioDataSettled 1 (Some [1, 2])]
       advisorInitial"

text \<open>
  Where a played buffer comes from. The synthesis of task \<open>t\<close> returned the audio data
  \<open>d\<close> when one of the events settled it with a response from which
  \<open>getTextToSpeechAudio\<close> returns \<open>d\<close>.
\<close>

definition returned :: "'p event list \<Rightarrow> nat \<Rightarrow> string \<Rightarrow> bool" where
  "returned evs t d =
     (\<exists>r tx lang. SynthesisSettled t r \<in> set evs
        \<and> getTextToSpeechAudio (\<lambda>_. r) tx lang = Inr d)"

text \<open>
  The bytes \<open>bs\<close> are the decoding of audio data that the synthesis of task \<open>t\<close>
  returned, and \<open>decodeAudioData\<close> was called on them at 24000 Hz, mono.
\<close>

definition decodedFrom ::
  "(string \<Rightarrow> bytes option) \<Rightarrow> 'p event list \<Rightarrow> effect list \<Rightarrow> nat \<Rightarrow> bytes \<Rightarrow> bool" where
  "decodedFrom decode evs tr t bs =
     (\<exists>d. returned evs t d \<and> decode d = Some bs \<and> CallDecodeAudioData bs 24000 1 \<in> set tr)"

text \<open>
  The buffer \<open>b\<close> is what \<open>decodeAudioData\<close> delivered to a task for such bytes.
\<close>

definition playsDecoded ::
  "(string \<Rightarrow> bytes option) \<Rightarrow> 'p event list \<Rightarrow> effect list \<Rightarrow> audioBuffer \<Rightarrow> bool" where
  "playsDecoded decode evs tr b =
     (\<exists>t bs. decodedFrom decode evs tr t bs \<and> DecodeAudioDataSettled t (Some b) \<in> set evs)"

text \<open>
  The invariant behind it: a task that awaits the resume holds data its synthesis
  returned; a task that awaits \<open>decodeAudioData\<close> made the call at 24000 Hz, mono, on
  the decoding of such data; and every node holds a buffer delivered for such a call.
\<close>

definition provenance ::
  "(string \<Rightarrow> bytes option) \<Rightarrow> 'p event list \<Rightarrow> 'a player_scheme \<Rightarrow> bool" where
  "provenance decode evs s =
     ((\<forall>t d. (t, AwaitResume d) \<in> set (tasks s) \<longrightarrow> returned evs t d)
      \<and> (\<forall>t bs rate channels. (t, AwaitDecodeAudioData bs rate channels) \<in> set (tasks s) \<longrightarrow>
            rate = 24000 \<and> channels = 1 \<and> decodedFrom decode evs (trace s) t bs)
      \<and> (\<forall>p \<in> set (sources s). playsDecoded decode evs (trace s) (buffer (snd p))))"

text \<open>
  A step that only appends to the trace, creates no node and no buffer, and leaves no
  task behind but those there were and tasks that await a synthesis.
\<close>

definition frame :: "'a player_scheme \<Rightarrow> 'a player_scheme \<Rightarrow> bool" where
  "frame s s' =
     (set (trace s) \<subseteq> set (trace s')
      \<and> (\<forall>p \<in> set (sources s'). \<exists>q \<in> set (sources s). buffer (snd p) = buffer (snd q))
      \<and> (\<forall>t st. (t, st) \<in> set (tasks s') \<longrightarrow>
            (t, st) \<in> set (tasks s) \<or> (\<exists>tx. st = AwaitSynthesis tx)))"

text \<open>The nodes are the sources started: as many as \<open>SourceStart\<close> effects.\<close>

definition numbered :: "'a player_scheme \<Rightarrow> bool" where
  "numbered s = (length (filter isSourceStart (trace s)) = length (sources s))"

text \<open>Speak, the audio arrives, the decoding arrives: the events behind the playing states.\<close>

definition firstEvents :: "'p \<Rightarrow> 'p event list" where
  "firstEvents x =
     [HandleSpeak (Some x), SynthesisSettled 0 (audioResponse ''QUJD''),
      DecodeAudioDataSettled 0 (Some [1, 2])]"

text \<open>
  \<open>InvestmentPredictor\<close> after speak, stop, speak; the synthesis of the second
  session fails; then the audio of the first, stopped session arrives, is decoded and
  plays to its end.
\<close>

definition failedThenResumed :: predictor where
  "failedThenResumed =
     exec charCodes
       [HandleSpeak (Some samplePrediction), HandleSpeak (Some samplePrediction),
        HandleSpeak (Some samplePrediction),
        SynthesisSettled 1 RemoteError,
        SynthesisSettled 0 (audioResponse ''QUJD''), DecodeAudioDataSettled 0 (Some [1, 2]),
        Ended 0]
       initial"

section \<open>Field by field: what the primitives change\<close>

lemma emit_fields [simp]:
    "isSpeaking (emit e s) = isSpeaking s"
    "error (emit e s) = error s"
    "language (emit e s) = language s"
    "audioContextRef (emit e s) = audioContextRef s"
    "audioSourceRef (emit e s) = audioSourceRef s"
    "tasks (emit e s) = tasks s"
    "nextTask (emit e s) = nextTask s"
    "sources (emit e s) = sources s"
    "trace (emit e s) = trace s @ [e]"
  by (simp_all add: emit_def)

lemma emit_queue [simp]:
    "audioQueueRef (emit e s) = audioQueueRef s"
    "isStoppedManuallyRef (emit e s) = isStoppedManuallyRef s"
  by (simp_all add: emit_def)

lemma setIsSpeaking_fields [simp]:
    "isSpeaking (setIsSpeaking b s) = b"
    "error (setIsSpeaking b s) = error s"
    "language (setIsSpeaking b s) = language s"
    "audioContextRef (setIsSpeaking b s) = audioContextRef s"
    "audioSourceRef (setIsSpeaking b s) = audioSourceRef s"
    "tasks (setIsSpeaking b s) = tasks s"
    "nextTask (setIsSpeaking b s) = nextTask s"
    "sources (setIsSpeaking b s) = sources s"
    "trace (setIsSpeaking b s) = trace s @ [SetIsSpeaking b]"
  by (simp_all add: setIsSpeaking_def emit_def)

lemma setIsSpeaking_queue [simp]:
    "audioQueueRef (setIsSpeaking b s) = audioQueueRef s"
    "isStoppedManuallyRef (setIsSpeaking b s) = isStoppedManuallyRef s"
  by (simp_all add: setIsSpeaking_def emit_def)

lemma setError_fields [simp]:
    "isSpeaking (setError x s) = isSpeaking s"
    "error (setError x s) = x"
    "language (setError x s) = language s"
    "audioContextRef (setError x s) = audioContextRef s"
    "audioSourceRef (setError x s) = audioSourceRef s"
    "tasks (setError x s) = tasks s"
    "nextTask (setError x s) = nextTask s"
    "sources (setError x s) = sources s"
    "trace (setError x s) = trace s @ [SetError x]"
  by (simp_all add: setError_def emit_def)

lemma setError_queue [simp]:
    "audioQueueRef (setError x s) = audioQueueRef s"
    "isStoppedManuallyRef (setError x s) = isStoppedManuallyRef s"
  by (simp_all add: setError_def emit_def)

lemma park_fields [simp]:
    "isSpeaking (park t st s) = isSpeaking s"
    "error (park t st s) = error s"
    "language (park t st s) = language s"
    "audioContextRef (park t st s) = audioContextRef s"
    "audioSourceRef (park t st s) = audioSourceRef s"
    "tasks (park t st s) = tasks s @ [(t, st)]"
    "nextTask (park t st s) = nextTask s"
    "sources (park t st s) = sources s"
    "trace (park t st s) = trace s"
  by (simp_all add: park_def)

lemma park_queue [simp]:
    "audioQueueRef (park t st s) = audioQueueRef s"
    "isStoppedManuallyRef (park t st s) = isStoppedManuallyRef s"
  by (simp_all add: park_def)

lemma spawn_fields [simp]:
    "isSpeaking (spawn st s) = isSpeaking s"
    "error (spawn st s) = error s"
    "language (spawn st s) = language s"
    "audioContextRef (spawn st s) = audioContextRef s"
    "audioSourceRef (spawn st s) = audioSourceRef s"
    "tasks (spawn st s) = tasks s @ [(nextTask s, st)]"
    "nextTask (spawn st s) = Suc (nextTask s)"
    "sources (spawn st s) = sources s"
    "trace (spawn st s) = trace s"
  by (simp_all add: spawn_def park_def)

lemma spawn_queue [simp]:
    "audioQueueRef (spawn st s) = audioQueueRef s"
    "isStoppedManuallyRef (spawn st s) = isStoppedManuallyRef s"
  by (simp_all add: spawn_def park_def)

lemma unpark_fields [simp]:
    "isSpeaking (unpark t s) = isSpeaking s"
    "error (unpark t s) = error s"
    "language (unpark t s) = language s"
    "audioContextRef (unpark t s) = audioContextRef s"
    "audioSourceRef (unpark t s) = audioSourceRef s"
    "tasks (unpark t s) = filter (\<lambda>p. fst p \<noteq> t) (tasks s)"
    "nextTask (unpark t s) = nextTask s"
    "sources (unpark t s) = sources s"
    "trace (unpark t s) = trace s"
  by (simp_all add: unpark_def)

lemma unpark_queue [simp]:
    "audioQueueRef (unpark t s) = audioQueueRef s"
    "isStoppedManuallyRef (unpark t s) = isStoppedManuallyRef s"
  by (simp_all add: unpark_def)

lemma setNode_fields [simp]:
    "isSpeaking (setNode i n s) = isSpeaking s"
    "error (setNode i n s) = error s"
    "language (setNode i n s) = language s"
    "audioContextRef (setNode i n s) = audioContextRef s"
    "audioSourceRef (setNode i n s) = audioSourceRef s"
    "tasks (setNode i n s) = tasks s"
    "nextTask (setNode i n s) = nextTask s"
    "sources (setNode i n s) = map (\<lambda>p. if fst p = i then (i, n) else p) (sources s)"
    "trace (setNode i n s) = trace s"
  by (simp_all add: setNode_def)

lemma setNode_queue [simp]:
    "audioQueueRef (setNode i n s) = audioQueueRef s"
    "isStoppedManuallyRef (setNode i n s) = isStoppedManuallyRef s"
  by (simp_all add: setNode_def)

lemma sourceDisconnect_fields [simp]:
    "isSpeaking (sourceDisconnect i s) = isSpeaking s"
    "error (sourceDisconnect i s) = error s"
    "language (sourceDisconnect i s) = language s"
    "audioContextRef (sourceDisconnect i s) = audioContextRef s"
    "audioSourceRef (sourceDisconnect i s) = audioSourceRef s"
    "tasks (sourceDisconnect i s) = tasks s"
    "nextTask (sourceDisconnect i s) = nextTask s"
    "sources (sourceDisconnect i s) = sources s"
    "trace (sourceDisconnect i s) = trace s @ [SourceDisconnect i]"
  by (simp_all add: sourceDisconnect_def emit_def)

lemma sourceDisconnect_queue [simp]:
    "audioQueueRef (sourceDisconnect i s) = audioQueueRef s"
    "isStoppedManuallyRef (sourceDisconnect i s) = isStoppedManuallyRef s"
  by (simp_all add: sourceDisconnect_def emit_def)

lemma sourceStop_fields [simp]:
    "isSpeaking (sourceStop i s) = isSpeaking s"
    "error (sourceStop i s) = error s"
    "language (sourceStop i s) = language s"
    "audioContextRef (sourceStop i s) = audioContextRef s"
    "audioSourceRef (sourceStop i s) = audioSourceRef s"
    "tasks (sourceStop i s) = tasks s"
    "nextTask (sourceStop i s) = nextTask s"
    "trace (sourceStop i s) = trace s @ [SourceStop i]"
  by (simp_all add: sourceStop_def emit_def setNode_def split: option.splits)

lemma sourceStop_queue [simp]:
    "audioQueueRef (sourceStop i s) = audioQueueRef s"
    "isStoppedManuallyRef (sourceStop i s) = isStoppedManuallyRef s"
  by (simp_all add: sourceStop_def emit_def setNode_def split: option.splits)

lemma detachOnended_fields [simp]:
    "isSpeaking (detachOnended i s) = isSpeaking s"
    "error (detachOnended i s) = error s"
    "language (detachOnended i s) = language s"
    "audioContextRef (detachOnended i s) = audioContextRef s"
    "audioSourceRef (detachOnended i s) = audioSourceRef s"
    "tasks (detachOnended i s) = tasks s"
    "nextTask (detachOnended i s) = nextTask s"
    "trace (detachOnended i s) = trace s"
  by (simp_all add: detachOnended_def setNode_def split: option.splits)

lemma detachOnended_queue [simp]:
    "audioQueueRef (detachOnended i s) = audioQueueRef s"
    "isStoppedManuallyRef (detachOnended i s) = isStoppedManuallyRef s"
  by (simp_all add: detachOnended_def setNode_def split: option.splits)

lemma startSource_fields [simp]:
    "isSpeaking (startSource b s) = isSpeaking s"
    "error (startSource b s) = error s"
    "language (startSource b s) = language s"
    "audioContextRef (startSource b s) = audioContextRef s"
    "audioSourceRef (startSource b s) = Some (length (sources s))"
    "tasks (startSource b s) = tasks s"
    "nextTask (startSource b s) = nextTask s"
    "sources (startSource b s) = sources s @ [(length (sources s), \<lparr>buffer = b, onended = True, status = Playing\<rparr>)]"
    "trace (startSource b s) = trace s @ [SourceStart (length (sources s))]"
  by (simp_all add: startSource_def emit_def Let_def)

lemma startSource_queue [simp]:
    "audioQueueRef (startSource b s) = audioQueueRef s"
    "isStoppedManuallyRef (startSource b s) = isStoppedManuallyRef s"
  by (simp_all add: startSource_def emit_def Let_def)

lemma ensureContext_fields [simp]:
    "isSpeaking (ensureContext s) = isSpeaking s"
    "error (ensureContext s) = error s"
    "language (ensureContext s) = language s"
    "audioSourceRef (ensureContext s) = audioSourceRef s"
    "tasks (ensureContext s) = tasks s"
    "nextTask (ensureContext s) = nextTask s"
    "sources (ensureContext s) = sources s"
  by (simp_all add: ensureContext_def emit_def)

lemma ensureContext_queue [simp]:
    "audioQueueRef (ensureContext s) = audioQueueRef s"
    "isStoppedManuallyRef (ensureContext s) = isStoppedManuallyRef s"
  by (simp_all add: ensureContext_def emit_def)

lemma suspendContext_fields [simp]:
    "isSpeaking (suspendContext s) = isSpeaking s"
    "error (suspendContext s) = error s"
    "language (suspendContext s) = language s"
    "audioSourceRef (suspendContext s) = audioSourceRef s"
    "tasks (suspendContext s) = tasks s"
    "nextTask (suspendContext s) = nextTask s"
    "sources (suspendContext s) = sources s"
  by (simp_all add: suspendContext_def emit_def split: option.splits)

lemma suspendContext_queue [simp]:
    "audioQueueRef (suspendContext s) = audioQueueRef s"
    "isStoppedManuallyRef (suspendContext s) = isStoppedManuallyRef s"
  by (simp_all add: suspendContext_def emit_def split: option.splits)

lemma sourceStop_sources:
  "sources (sourceStop i s) =
     (case map_of (sources s) i of
        None \<Rightarrow> sources s
      | Some n \<Rightarrow>
          if status n = Playing
          then map (\<lambda>p. if fst p = i then (i, n\<lparr>status := Stopped\<rparr>) else p) (sources s)
          else sources s)"
  by (simp add: sourceStop_def emit_def setNode_def split: option.splits)

lemma ensureContext_context [simp]:
  "audioContextRef (ensureContext s) =
     (if audioContextRef s = None \<or> audioContextRef s = Some Closed then Some Running
      else audioContextRef s)"
  by (simp add: ensureContext_def emit_def)

lemma ensureContext_trace [simp]:
  "trace (ensureContext s) =
     trace s @ (if audioContextRef s = None \<or> audioContextRef s = Some Closed
                then [NewAudioContext 24000] else [])"
  by (simp add: ensureContext_def emit_def)

lemma suspendContext_context [simp]:
  "audioContextRef (suspendContext s) =
     (case audioContextRef s of
        None \<Rightarrow> None
      | Some c \<Rightarrow> if c = Closed then Some Closed else Some Suspended)"
  by (simp add: suspendContext_def emit_def split: option.splits)

lemma suspendContext_trace [simp]:
  "trace (suspendContext s) = trace s @ suspendEffects (audioContextRef s)"
  by (cases "audioContextRef s"; cases "the (audioContextRef s)")
     (simp_all add: suspendContext_def emit_def)

lemma suspend_twice:
  "suspendEffects (audioContextRef (suspendContext s)) = suspendEffects (audioContextRef s)"
  by (cases "audioContextRef s"; cases "the (audioContextRef s)") simp_all

lemma stopPlayback_fields [simp]:
  "isSpeaking (stopPlayback s) = False"
  "error (stopPlayback s) = error s"
  "language (stopPlayback s) = language s"
  "audioContextRef (stopPlayback s) = audioContextRef (suspendContext s)"
  "audioSourceRef (stopPlayback s) = None"
  "tasks (stopPlayback s) = tasks s"
  "nextTask (stopPlayback s) = nextTask s"
  "audioQueueRef (stopPlayback s) = []"
  "isStoppedManuallyRef (stopPlayback s) = True"
  by (simp_all add: stopPlayback_def Let_def split: option.splits)

lemma stopPlayback_released:
  assumes "audioSourceRef s = None"
  shows "sources (stopPlayback s) = sources s"
    and "trace (stopPlayback s)
           = trace s @ suspendEffects (audioContextRef s) @ [SetIsSpeaking False]"
  using assms by (simp_all add: stopPlayback_def Let_def)

section \<open>The synthesis service\<close>

text \<open>
  C9. \<open>getTextToSpeechAudio\<close> fails if and only if the remote call errors or the
  response carries no audio payload (the payload the code reads is absent, or is the
  empty string); otherwise it returns the Base64 audio data of the response. Whatever
  went wrong, the failure is the one generic synthesis error.
\<close>

theorem synthesis_fails_iff:
  "((\<exists>e. getTextToSpeechAudio remote text lang = Inl e) \<longleftrightarrow>
      (remote (ttsPrompt text lang) = RemoteError
       \<or> (\<exists>r. remote (ttsPrompt text lang) = RemoteResponse r
              \<and> (base64Audio r = None \<or> base64Audio r = Some []))))
   \<and> (getTextToSpeechAudio remote text lang = Inr d \<longleftrightarrow>
        (\<exists>r. remote (ttsPrompt text lang) = RemoteResponse r
             \<and> base64Audio r = Some d \<and> d \<noteq> []))
   \<and> (getTextToSpeechAudio remote text lang = Inl e \<longrightarrow>
        e = Error ''Failed to generate speech from the AI.'')"
  by (auto simp: getTextToSpeechAudio_def ttsTry_def
           split: remoteResult.splits option.splits sum.splits if_splits)

theorem synthesis_fails_iff_witness:
  "getTextToSpeechAudio
      (\<lambda>_. RemoteResponse (Response (Some [Candidate (Some (Content (Some [Part None])))])))
      ''hello'' ''English''
     = Inl (Error ''Failed to generate speech from the AI.'')
   \<and> getTextToSpeechAudio (\<lambda>_. audioResponse ''UklGRg=='') ''hello'' ''English''
       = Inr ''UklGRg==''"
proof -
  let ?r = "\<lambda>_::string.
              RemoteResponse (Response (Some [Candidate (Some (Content (Some [Part None])))]))"
  have "\<exists>e. getTextToSpeechAudio ?r ''hello'' ''English'' = Inl e"
    using synthesis_fails_iff [of ?r "''hello''" "''English''"]
    by (simp add: base64Audio_def)
  then obtain e where e: "getTextToSpeechAudio ?r ''hello'' ''English'' = Inl e" ..
  then have "e = Error ''Failed to generate speech from the AI.''"
    using synthesis_fails_iff [of ?r "''hello''" "''English''" _ e] by blast
  with e have f: "getTextToSpeechAudio ?r ''hello'' ''English''
                    = Inl (Error ''Failed to generate speech from the AI.'')"
    by simp
  have g: "getTextToSpeechAudio (\<lambda>_. audioResponse ''UklGRg=='') ''hello'' ''English''
             = Inr ''UklGRg==''"
    using synthesis_fails_iff [of "\<lambda>_. audioResponse ''UklGRg==''" "''hello''"
                                 "''English''" "''UklGRg==''"]
    by (simp add: audioResponse_def base64Audio_def)
  from f g show ?thesis by simp
qed

section \<open>Stopping\<close>

text \<open>
  C4. \<open>stopPlayback\<close> is idempotent. A second call in succession leaves the state of
  the first (queue, flags, \<open>isSpeaking\<close>, source handle, context, nodes) as it is; what
  it does is at most a further \<open>suspend()\<close> and \<open>setIsSpeaking(false)\<close>, and no node is
  stopped or disconnected a second time. Called on a component that is already stopped
  (no source held, empty queue, not speaking) it sets the stop flag, suspends the
  context, and changes nothing else.
\<close>

theorem stop_idempotent:
  "(stopPlayback (stopPlayback s))\<lparr>trace := trace (stopPlayback s)\<rparr> = stopPlayback s
   \<and> trace (stopPlayback (stopPlayback s))
       = trace (stopPlayback s) @ suspendEffects (audioContextRef s) @ [SetIsSpeaking False]
   \<and> (audioSourceRef s = None \<and> audioQueueRef s = [] \<and> \<not> isSpeaking s \<longrightarrow>
        stopPlayback s
          = s\<lparr>isStoppedManuallyRef := True,
              audioContextRef := audioContextRef (suspendContext s),
              trace := trace s @ suspendEffects (audioContextRef s) @ [SetIsSpeaking False]\<rparr>)"
proof (intro conjI impI)
  have none: "audioSourceRef (stopPlayback s) = None" by simp
  show "(stopPlayback (stopPlayback s))\<lparr>trace := trace (stopPlayback s)\<rparr> = stopPlayback s"
    by (rule predictor.equality)
       (simp_all add: stopPlayback_released(1) [OF none] split: option.splits)
  show "trace (stopPlayback (stopPlayback s))
       = trace (stopPlayback s) @ suspendEffects (audioContextRef s) @ [SetIsSpeaking False]"
    by (simp add: stopPlayback_released(2) [OF none] suspend_twice
             del: suspendContext_context)
next
  assume a: "audioSourceRef s = None \<and> audioQueueRef s = [] \<and> \<not> isSpeaking s"
  then have none: "audioSourceRef s = None" by simp
  show "stopPlayback s
          = s\<lparr>isStoppedManuallyRef := True,
              audioContextRef := audioContextRef (suspendContext s),
              trace := trace s @ suspendEffects (audioContextRef s) @ [SetIsSpeaking False]\<rparr>"
    using a by (intro predictor.equality) (simp_all add: stopPlayback_released [OF none])
qed

theorem stop_idempotent_witness:
  "(stopPlayback (stopPlayback playingFirst))\<lparr>trace := trace (stopPlayback playingFirst)\<rparr>
     = stopPlayback playingFirst
   \<and> audioSourceRef initial = None \<and> audioQueueRef initial = [] \<and> \<not> isSpeaking initial
   \<and> stopPlayback initial
       = initial\<lparr>isStoppedManuallyRef := True, trace := [SetIsSpeaking False]\<rparr>"
  using stop_idempotent [of playingFirst] stop_idempotent [of initial]
  by (simp add: initial_def)

section \<open>One segment of a session\<close>

lemma synthesis_audioResponse [simp]:
  "d \<noteq> [] \<Longrightarrow> getTextToSpeechAudio (\<lambda>_. audioResponse d) text lang = Inr d"
  by (simp add: getTextToSpeechAudio_def ttsTry_def audioResponse_def base64Audio_def)

lemma fresh_key:
  assumes "map fst xs = [0..<length xs]"
  shows "length xs \<notin> fst ` set xs"
proof -
  have "fst ` set xs = set (map fst xs)" by simp
  also have "\<dots> = {0..<length xs}" using assms by simp
  finally show ?thesis by simp
qed

lemma map_of_fresh [simp]:
  "map fst xs = [0..<length xs] \<Longrightarrow> map_of (xs @ [(length xs, v)]) (length xs) = Some v"
  using fresh_key [of xs]
  by (simp add: map_of_eq_None_iff [symmetric] map_add_def split: option.splits)

lemma setNode_old [simp]:
  assumes "map fst xs = [0..<length xs]"
  shows "map (\<lambda>p. if fst p = length xs then (length xs, n) else p) xs = xs"
proof -
  have "\<And>p. p \<in> set xs \<Longrightarrow> fst p \<noteq> length xs" using fresh_key [OF assms] by force
  then show ?thesis by (simp add: map_idI)
qed

lemmas run_defs = exec_def step_def afterSynthesis_def afterResume_def afterDecodeAudioData_def
  onendedSegment_def playNextInQueue_def endedDue_def Let_def segmentEffects_def

lemma sessionD:
  assumes "session s t text q"
  shows "tasks s = [(t, AwaitSynthesis text)]" "nextTask s = Suc t"
    "map fst (sources s) = [0..<length (sources s)]"
    "list_all (\<lambda>p. status (snd p) = Finished) (sources s)"
    "\<not> isStoppedManuallyRef s" "audioQueueRef s = q" "isSpeaking s"
  using assms by (simp_all add: session_def)

lemma segment_then_next:
  fixes b :: audioBuffer and decode :: "string \<Rightarrow> bytes option"
  assumes s: "session s t text (text' # q)" and d: "d \<noteq> []" "decode d = Some bs"
    and n: "text' \<noteq> []"
  defines "s' \<equiv> exec decode [SynthesisSettled t (audioResponse d), ResumeSettled t True,
      DecodeAudioDataSettled t (Some b), Ended (length (sources s))] s"
  shows "session s' (Suc t) text' q"
    and "trace s' = trace s @ segmentEffects (audioContextRef s) (length (sources s)) bs
           @ [CallSynthesis text' (language s)]"
    and "audioContextRef s' = Some Running" and "language s' = language s"
    and "error s' = error s" and "length (sources s') = Suc (length (sources s))"
proof -
  note f = sessionD [OF s]
  show "session s' (Suc t) text' q"
    unfolding s'_def session_def
    by (cases "audioContextRef s" rule: contextEffects.cases)
       (simp_all add: run_defs f d n del: map_of_append)
  show "trace s' = trace s @ segmentEffects (audioContextRef s) (length (sources s)) bs
           @ [CallSynthesis text' (language s)]"
    unfolding s'_def 
    by (cases "audioContextRef s" rule: contextEffects.cases)
       (simp_all add: run_defs f d n del: map_of_append)
  show "audioContextRef s' = Some Running"
    unfolding s'_def 
    by (cases "audioContextRef s" rule: contextEffects.cases)
       (simp_all add: run_defs f d n del: map_of_append)
  show "language s' = language s"
    unfolding s'_def 
    by (cases "audioContextRef s" rule: contextEffects.cases)
       (simp_all add: run_defs f d n del: map_of_append)
  show "error s' = error s"
    unfolding s'_def 
    by (cases "audioContextRef s" rule: contextEffects.cases)
       (simp_all add: run_defs f d n del: map_of_append)
  show "length (sources s') = Suc (length (sources s))"
    unfolding s'_def 
    by (cases "audioContextRef s" rule: contextEffects.cases)
       (simp_all add: run_defs f d n del: map_of_append)
qed

lemma segment_then_done:
  fixes b :: audioBuffer and decode :: "string \<Rightarrow> bytes option"
  assumes s: "session s t text []" and d: "d \<noteq> []" "decode d = Some bs"
  defines "s' \<equiv> exec decode [SynthesisSettled t (audioResponse d), ResumeSettled t True,
      DecodeAudioDataSettled t (Some b), Ended (length (sources s))] s"
  shows "quiescent s'" and "\<not> isSpeaking s'"
    and "trace s' = trace s @ segmentEffects (audioContextRef s) (length (sources s)) bs
           @ [SetIsSpeaking False]"
    and "audioSourceRef s' = None" and "audioQueueRef s' = []"
    and "\<not> isStoppedManuallyRef s'" and "error s' = error s"
    and "map fst (sources s') = [0..<length (sources s')]"
proof -
  note f = sessionD [OF s]
  show "quiescent s'"
    unfolding s'_def quiescent_def
    by (cases "audioContextRef s" rule: contextEffects.cases)
       (simp_all add: run_defs f d del: map_of_append)
  show "\<not> isSpeaking s'"
    unfolding s'_def
    by (cases "audioContextRef s" rule: contextEffects.cases)
       (simp_all add: run_defs f d del: map_of_append)
  show "trace s' = trace s @ segmentEffects (audioContextRef s) (length (sources s)) bs
           @ [SetIsSpeaking False]"
    unfolding s'_def
    by (cases "audioContextRef s" rule: contextEffects.cases)
       (simp_all add: run_defs f d del: map_of_append)
  show "audioSourceRef s' = None"
    unfolding s'_def
    by (cases "audioContextRef s" rule: contextEffects.cases)
       (simp_all add: run_defs f d del: map_of_append)
  show "audioQueueRef s' = []"
    unfolding s'_def
    by (cases "audioContextRef s" rule: contextEffects.cases)
       (simp_all add: run_defs f d del: map_of_append)
  show "\<not> isStoppedManuallyRef s'"
    unfolding s'_def
    by (cases "audioContextRef s" rule: contextEffects.cases)
       (simp_all add: run_defs f d del: map_of_append)
  show "error s' = error s"
    unfolding s'_def
    by (cases "audioContextRef s" rule: contextEffects.cases)
       (simp_all add: run_defs f d del: map_of_append)
  show "map fst (sources s') = [0..<length (sources s')]"
    unfolding s'_def
    by (cases "audioContextRef s" rule: contextEffects.cases)
       (simp_all add: run_defs f d del: map_of_append)
qed

lemma segment_then_halt:
  fixes b :: audioBuffer and decode :: "string \<Rightarrow> bytes option"
  assumes s: "session s t text ([] # q)" and d: "d \<noteq> []" "decode d = Some bs"
  defines "s' \<equiv> exec decode [SynthesisSettled t (audioResponse d), ResumeSettled t True,
      DecodeAudioDataSettled t (Some b), Ended (length (sources s))] s"
  shows "quiescent s'" and "isSpeaking s'"
    and "trace s' = trace s @ segmentEffects (audioContextRef s) (length (sources s)) bs"
    and "audioQueueRef s' = q"
proof -
  note f = sessionD [OF s]
  show "quiescent s'"
    unfolding s'_def quiescent_def
    by (cases "audioContextRef s" rule: contextEffects.cases)
       (simp_all add: run_defs f d del: map_of_append)
  show "isSpeaking s'"
    unfolding s'_def
    by (cases "audioContextRef s" rule: contextEffects.cases)
       (simp_all add: run_defs f d del: map_of_append)
  show "trace s' = trace s @ segmentEffects (audioContextRef s) (length (sources s)) bs"
    unfolding s'_def
    by (cases "audioContextRef s" rule: contextEffects.cases)
       (simp_all add: run_defs f d del: map_of_append)
  show "audioQueueRef s' = q"
    unfolding s'_def
    by (cases "audioContextRef s" rule: contextEffects.cases)
       (simp_all add: run_defs f d del: map_of_append)
qed

lemma catchSegment_fields [simp]:
  "isSpeaking (catchSegment s) = False"
  "error (catchSegment s) = Some ''Failed to generate or play audio for a segment.''"
  "language (catchSegment s) = language s"
  "audioContextRef (catchSegment s) = audioContextRef s"
  "audioSourceRef (catchSegment s) = audioSourceRef s"
  "tasks (catchSegment s) = tasks s"
  "nextTask (catchSegment s) = nextTask s"
  "sources (catchSegment s) = sources s"
  "trace (catchSegment s) = trace s @ [SetError (Some ''Failed to generate or play audio for a segment.''), SetIsSpeaking False]"
  "audioQueueRef (catchSegment s) = audioQueueRef s"
  "isStoppedManuallyRef (catchSegment s) = isStoppedManuallyRef s"
  by (simp_all add: catchSegment_def)

lemma segment_fails:
  fixes decode :: "string \<Rightarrow> bytes option"
  assumes s: "session s t text q" and f: "fails decode text (language s) f"
  defines "s' \<equiv> exec decode (failing t f) s"
  shows "quiescent s'" and "\<not> isSpeaking s'"
    and "trace s' = trace s @ failureEffects decode (audioContextRef s) f
           @ [SetError (Some ''Failed to generate or play audio for a segment.''),
              SetIsSpeaking False]"
    and "audioQueueRef s' = q"
proof -
  note g = sessionD [OF s]
  show "quiescent s'"
    unfolding s'_def quiescent_def using f
    by (cases f; cases "audioContextRef s" rule: contextEffects.cases)
       (auto simp add: run_defs g simp del: map_of_append split: sum.splits)
  show "\<not> isSpeaking s'"
    unfolding s'_def using f
    by (cases f; cases "audioContextRef s" rule: contextEffects.cases)
       (auto simp add: run_defs g simp del: map_of_append split: sum.splits)
  show "trace s' = trace s @ failureEffects decode (audioContextRef s) f
           @ [SetError (Some ''Failed to generate or play audio for a segment.''),
              SetIsSpeaking False]"
    unfolding s'_def using f
    by (cases f; cases "audioContextRef s" rule: contextEffects.cases)
       (auto simp add: run_defs g simp del: map_of_append split: sum.splits)
  show "audioQueueRef s' = q"
    unfolding s'_def using f
    by (cases f; cases "audioContextRef s" rule: contextEffects.cases)
       (auto simp add: run_defs g simp del: map_of_append split: sum.splits)
qed

section \<open>Runs of a session\<close>

lemma exec_append: "exec decode (xs @ ys) s = exec decode ys (exec decode xs s)"
  by (simp add: exec_def)

lemma exec_Cons: "exec decode (ev # evs) s = exec decode evs (step decode ev s)"
  by (simp add: exec_def)

lemma finished_not_due:
  assumes "list_all (\<lambda>p. status (snd p) = Finished) xs" and "map_of xs i = Some n"
  shows "status n = Finished"
proof -
  from assms(2) have "(i, n) \<in> set xs" by (rule map_of_SomeD)
  with assms(1) show ?thesis by (auto simp: list_all_iff)
qed

lemma quiescent_step:
  assumes "quiescent s" and "external ev"
  shows "step decode ev s = s"
proof (cases ev)
  case (Ended i)
  show ?thesis
  proof (cases "map_of (sources s) i")
    case None
    with Ended show ?thesis by (simp add: step_def)
  next
    case (Some n)
    with assms(1) have "status n = Finished"
      by (auto simp: quiescent_def dest: finished_not_due)
    with Ended Some show ?thesis by (simp add: step_def endedDue_def)
  qed
qed (use assms in \<open>simp_all add: step_def quiescent_def\<close>)

lemma quiescent_exec:
  assumes "quiescent s" and "list_all external evs"
  shows "exec decode evs s = s"
  using assms(2) by (induction evs) (simp_all add: exec_def quiescent_step [OF assms(1)])

lemma uninterrupted_external: "list_all external (uninterrupted t i ans)"
  by (induction t i ans rule: uninterrupted.induct) simp_all

lemma failing_external: "list_all external (failing t f)"
  by (cases f) simp_all

lemma run_trace:
  assumes "session s t tx q" and "decodable decode ans"
  shows "trace (exec decode (uninterrupted t (length (sources s)) ans) s)
           = trace s @ runEffects decode (language s) (audioContextRef s) (length (sources s)) ans q"
  using assms
proof (induction ans arbitrary: s t tx q)
  case Nil
  then show ?case by (simp add: exec_def)
next
  case (Cons a ans)
  obtain d b where a: "a = (d, b)" by (cases a)
  from Cons.prems(2) a obtain bs where d: "d \<noteq> []" "decode d = Some bs"
    and rest: "decodable decode ans"
    by (auto simp: decodable_def)
  let ?seg = "[SynthesisSettled t (audioResponse d), ResumeSettled t True,
      DecodeAudioDataSettled t (Some b), Ended (length (sources s))]"
  let ?s' = "exec decode ?seg s"
  have split: "exec decode (uninterrupted t (length (sources s)) (a # ans)) s
                 = exec decode (uninterrupted (Suc t) (Suc (length (sources s))) ans) ?s'"
  proof -
    have "uninterrupted t (length (sources s)) (a # ans)
            = ?seg @ uninterrupted (Suc t) (Suc (length (sources s))) ans"
      using a by simp
    then show ?thesis by (simp only: exec_append)
  qed
  show ?case
  proof (cases q)
    case Nil
    with Cons.prems(1) have s: "session s t tx []" by simp
    have "exec decode (uninterrupted (Suc t) (Suc (length (sources s))) ans) ?s' = ?s'"
      by (rule quiescent_exec [OF segment_then_done(1) [where decode = decode, OF s d] uninterrupted_external])
    with split segment_then_done(3) [where decode = decode and b = b, OF s d] Nil a d show ?thesis by simp
  next
    case (Cons text' q')
    show ?thesis
    proof (cases "text' = []")
      case True
      with Cons Cons.prems(1) have s: "session s t tx ([] # q')" by simp
      have "exec decode (uninterrupted (Suc t) (Suc (length (sources s))) ans) ?s' = ?s'"
        by (rule quiescent_exec [OF segment_then_halt(1) [where decode = decode, OF s d] uninterrupted_external])
      with split segment_then_halt(3) [where decode = decode and b = b, OF s d] Cons True a d show ?thesis by simp
    next
      case False
      from Cons Cons.prems(1) have s: "session s t tx (text' # q')" by simp
      note nx = segment_then_next [where decode = decode and b = b, OF s d False]
      from Cons.IH [OF nx(1) rest] nx(2-6) split Cons False a d
      show ?thesis by simp
    qed
  qed
qed

lemma run_partial:
  assumes "session s t tx q" and "decodable decode ans" and "length ans \<le> length q"
    and "[] \<notin> set (take (length ans) q)"
  defines "s' \<equiv> exec decode (uninterrupted t (length (sources s)) ans) s"
  shows "session s' (t + length ans) ((tx # q) ! length ans) (drop (length ans) q)
         \<and> language s' = language s
         \<and> length (sources s') = length (sources s) + length ans
         \<and> audioContextRef s' = (if ans = [] then audioContextRef s else Some Running)"
  using assms(1-4) unfolding s'_def
proof (induction ans arbitrary: s t tx q)
  case Nil
  then show ?case by (simp add: exec_def)
next
  case (Cons a ans)
  obtain d b where a: "a = (d, b)" by (cases a)
  from Cons.prems(2) a obtain bs where d: "d \<noteq> []" "decode d = Some bs"
    and rest: "decodable decode ans"
    by (auto simp: decodable_def)
  from Cons.prems(3) obtain text' q' where q: "q = text' # q'" by (cases q) auto
  with Cons.prems(4) have n: "text' \<noteq> []" and n': "[] \<notin> set (take (length ans) q')" by auto
  from q Cons.prems(3) have l: "length ans \<le> length q'" by simp
  let ?seg = "[SynthesisSettled t (audioResponse d), ResumeSettled t True,
      DecodeAudioDataSettled t (Some b), Ended (length (sources s))]"
  let ?s' = "exec decode ?seg s"
  have split: "exec decode (uninterrupted t (length (sources s)) (a # ans)) s
                 = exec decode (uninterrupted (Suc t) (Suc (length (sources s))) ans) ?s'"
  proof -
    have "uninterrupted t (length (sources s)) (a # ans)
            = ?seg @ uninterrupted (Suc t) (Suc (length (sources s))) ans"
      using a by simp
    then show ?thesis by (simp only: exec_append)
  qed
  from q Cons.prems(1) have s: "session s t tx (text' # q')" by simp
  note nx = segment_then_next [where decode = decode and b = b, OF s d n]
  from Cons.IH [OF nx(1) rest l n'] nx(2-6) split q
  show ?case by simp
qed


section \<open>Reading the trace of a run\<close>

lemma textChunks_nonempty: "textChunks p \<noteq> []" "[] \<notin> set (textChunks p)"
  by (auto simp: textChunks_def)

lemma textChunks_hd_tl: "textChunks p = hd (textChunks p) # tl (textChunks p)"
  using textChunks_nonempty(1) [of p] by simp

lemma handleSpeak_session:
  fixes p :: portfolioPrediction
  assumes "idle s"
  defines "s0 \<equiv> handleSpeak (Some p) s"
  shows "session s0 (nextTask s) (hd (textChunks p)) (tl (textChunks p))"
    and "trace s0 = trace s @ [SetError None, SetIsSpeaking True,
                               CallSynthesis (hd (textChunks p)) (language s)]"
    and "language s0 = language s" and "audioContextRef s0 = audioContextRef s"
    and "length (sources s0) = length (sources s)"
proof -
  from assms(1) have i: "\<not> isSpeaking s" "tasks s = []"
    "map fst (sources s) = [0..<length (sources s)]"
    "list_all (\<lambda>p. status (snd p) = Finished) (sources s)"
    by (simp_all add: idle_def)
  have c: "textChunks p = x # xs \<Longrightarrow> x \<noteq> []" for x xs
    using textChunks_nonempty(2) [of p] by auto
  show "session s0 (nextTask s) (hd (textChunks p)) (tl (textChunks p))"
    unfolding s0_def session_def handleSpeak_def playNextInQueue_def Let_def
    using i c by (simp split: list.splits add: textChunks_nonempty)
  show "trace s0 = trace s @ [SetError None, SetIsSpeaking True,
                               CallSynthesis (hd (textChunks p)) (language s)]"
    unfolding s0_def handleSpeak_def playNextInQueue_def Let_def
    using i c by (simp split: list.splits add: textChunks_nonempty)
  show "language s0 = language s"
    unfolding s0_def handleSpeak_def playNextInQueue_def Let_def
    using i c by (simp split: list.splits add: textChunks_nonempty)
  show "audioContextRef s0 = audioContextRef s"
    unfolding s0_def handleSpeak_def playNextInQueue_def Let_def
    using i c by (simp split: list.splits add: textChunks_nonempty)
  show "length (sources s0) = length (sources s)"
    unfolding s0_def handleSpeak_def playNextInQueue_def Let_def
    using i c by (simp split: list.splits add: textChunks_nonempty)
qed

lemma synthesisCalls_append:
  "synthesisCalls (xs @ ys) = synthesisCalls xs @ synthesisCalls ys"
  by (induction xs rule: synthesisCalls.induct) simp_all

lemma reported_append: "reported (xs @ ys) = reported xs @ reported ys"
  by (induction xs rule: reported.induct) simp_all

lemma segmentEffects_silent [simp]:
  "synthesisCalls (segmentEffects c i bs) = []"
  "reported (segmentEffects c i bs) = []"
  "falls v (segmentEffects c i bs @ es) = falls v es"
  "sequential Synthesising (segmentEffects c i bs @ es) = sequential Quiet es"
  by (cases c rule: contextEffects.cases; simp add: segmentEffects_def)+

lemma failureEffects_silent [simp]:
  "synthesisCalls (failureEffects decode c f) = []"
  "reported (failureEffects decode c f) = []"
  by (cases f; cases c rule: contextEffects.cases; simp)+

lemma runEffects_calls:
  assumes "length ans \<le> Suc (length q)" and "[] \<notin> set (take (length ans) q)"
  shows "synthesisCalls (runEffects decode lang c i ans q)
           = map (\<lambda>x. (x, lang)) (take (length ans) q)"
  using assms
  by (induction decode lang c i ans q rule: runEffects.induct)
     (auto simp: synthesisCalls_append)


lemma runEffects_reported: "reported (runEffects decode lang c i ans q) = []"
  by (induction decode lang c i ans q rule: runEffects.induct) (simp_all add: reported_append)



section \<open>Sessions from start to end\<close>

lemma added_append [simp]: "trace s' = trace s @ es \<Longrightarrow> added s s' = es"
  by (simp add: added_def)




text \<open>
  A failing segment in a session started at rest. When the synthesis or the decoding of
  a segment fails, the segments before it having played, exactly one error is reported,
  \<open>isSpeaking\<close> is false, the synthesis was requested for the segments up to the
  failing one and for no later one, and nothing that can still happen outside the
  component makes it request one. (The queue keeps the later segments: the \<open>catch\<close>
  block does not empty it.)
\<close>

theorem failure_is_fail_fast:
  fixes p :: portfolioPrediction
  assumes "idle s" and "decodable decode ans" and "length ans < length (textChunks p)"
    and "fails decode (textChunks p ! length ans) (language s) f"
  shows "(let s' = exec decode (HandleSpeak (Some p)
                     # uninterrupted (nextTask s) (length (sources s)) ans
                     @ failing (nextTask s + length ans) f) s
          in reported (added s s') = [''Failed to generate or play audio for a segment.'']
             \<and> \<not> isSpeaking s'
             \<and> synthesisCalls (added s s')
                 = map (\<lambda>tx. (tx, language s)) (take (Suc (length ans)) (textChunks p))
             \<and> (\<forall>evs. list_all external evs \<longrightarrow> exec decode evs s' = s'))"
proof -
  let ?s0 = "handleSpeak (Some p) s"
  let ?q = "tl (textChunks p)"
  let ?m = "exec decode (uninterrupted (nextTask s) (length (sources ?s0)) ans) ?s0"
  let ?s' = "exec decode (HandleSpeak (Some p)
                     # uninterrupted (nextTask s) (length (sources s)) ans
                     @ failing (nextTask s + length ans) f) s"
  note h = handleSpeak_session [OF assms(1), of p]
  have l: "length ans \<le> length ?q" using assms(3) by simp
  have n: "[] \<notin> set (take (length ans) ?q)"
    using textChunks_nonempty(2) [of p] textChunks_hd_tl [of p]
    by (metis in_set_takeD list.set_intros(2))
  from run_partial [OF h(1) assms(2) l n]
  have m: "session ?m (nextTask s + length ans) ((hd (textChunks p) # ?q) ! length ans)
             (drop (length ans) ?q)"
    and ml: "language ?m = language s" by (simp_all add: h(3))
  have cur: "(hd (textChunks p) # ?q) ! length ans = textChunks p ! length ans"
    using textChunks_hd_tl [of p] by simp
  have s': "?s' = exec decode (failing (nextTask s + length ans) f) ?m"
    by (simp add: exec_Cons exec_append step_def h(5))
  have fl: "fails decode ((hd (textChunks p) # ?q) ! length ans) (language ?m) f"
    using assms(4) cur ml by simp
  note fa = segment_fails [where decode = decode, OF m fl]
  have trm: "trace ?m = trace s @ [SetError None, SetIsSpeaking True,
                       CallSynthesis (hd (textChunks p)) (language s)]
                 @ runEffects decode (language s) (audioContextRef s) (length (sources s))
                     ans ?q"
    using run_trace [OF h(1) assms(2)] h(2-5) by simp
  have tr: "trace ?s' = trace s @ ([SetError None, SetIsSpeaking True,
                       CallSynthesis (hd (textChunks p)) (language s)]
                 @ runEffects decode (language s) (audioContextRef s) (length (sources s))
                     ans ?q
                 @ failureEffects decode (audioContextRef ?m) f
                 @ [SetError (Some ''Failed to generate or play audio for a segment.''),
                    SetIsSpeaking False])"
    using fa(3) trm s' by simp
  have l': "length ans \<le> Suc (length ?q)" using l by simp
  have r: "reported (added s ?s') = [''Failed to generate or play audio for a segment.'']"
    unfolding added_append [OF tr] by (simp add: reported_append runEffects_reported)
  have c: "synthesisCalls (added s ?s')
                 = map (\<lambda>tx. (tx, language s)) (take (Suc (length ans)) (textChunks p))"
  proof -
    have "synthesisCalls (added s ?s')
            = (hd (textChunks p), language s)
              # map (\<lambda>tx. (tx, language s)) (take (length ans) ?q)"
      unfolding added_append [OF tr]
      using runEffects_calls [OF l' n, of decode "language s"]
      by (simp add: synthesisCalls_append)
    also have "\<dots> = map (\<lambda>tx. (tx, language s)) (take (Suc (length ans)) (hd (textChunks p) # ?q))"
      by simp
    finally show ?thesis using textChunks_hd_tl [of p] by simp
  qed
  have ns: "\<not> isSpeaking ?s'" using fa(2) s' by simp
  have qu: "quiescent ?s'" using fa(1) s' by simp
  have st: "\<forall>evs. list_all external evs \<longrightarrow> exec decode evs ?s' = ?s'"
    using quiescent_exec [OF qu] by blast
  from r c ns st show ?thesis by (simp add: Let_def)
qed

theorem failure_is_fail_fast_witness:
  "idle initial \<and> decodable charCodes []
   \<and> length ([] :: (string \<times> audioBuffer) list) < length (textChunks samplePrediction)
   \<and> fails charCodes (textChunks samplePrediction ! length ([] :: (string \<times> audioBuffer) list))
        (language initial) (SynthesisFails RemoteError)
   \<and> list_all external
        [SynthesisSettled 0 (audioResponse ''QUJD''), Ended 0 :: portfolioPrediction event]
   \<and> (let s' = exec charCodes (HandleSpeak (Some samplePrediction)
                   # uninterrupted (nextTask initial) (length (sources initial)) []
                   @ failing (nextTask initial + length ([] :: (string \<times> audioBuffer) list))
                       (SynthesisFails RemoteError))
                  initial
      in reported (added initial s') = [''Failed to generate or play audio for a segment.'']
         \<and> \<not> isSpeaking s'
         \<and> synthesisCalls (added initial s')
             = [(''Here is the overall summary of your portfolio prediction: Good'', ''English'')]
         \<and> exec charCodes [SynthesisSettled 0 (audioResponse ''QUJD''), Ended 0] s' = s')"
proof -
  have h1: "idle initial" by (simp add: idle_def initial_def)
  have h2: "decodable charCodes []" by (simp add: decodable_def)
  have h3: "length ([] :: (string \<times> audioBuffer) list) < length (textChunks samplePrediction)"
    by (simp add: textChunks_def samplePrediction_def)
  have h4: "fails charCodes
              (textChunks samplePrediction ! length ([] :: (string \<times> audioBuffer) list))
              (language initial) (SynthesisFails RemoteError)"
    by (simp add: getTextToSpeechAudio_def ttsTry_def)
  have h5: "list_all external
        [SynthesisSettled 0 (audioResponse ''QUJD''), Ended 0 :: portfolioPrediction event]"
    by simp
  have c: "map (\<lambda>tx. (tx, language initial))
             (take (Suc (length ([] :: (string \<times> audioBuffer) list)))
                (textChunks samplePrediction))
           = [(''Here is the overall summary of your portfolio prediction: Good'', ''English'')]"
    by (simp add: textChunks_def samplePrediction_def initial_def)
  from failure_is_fail_fast [OF h1 h2 h3 h4] h5
  have "(let s' = exec charCodes (HandleSpeak (Some samplePrediction)
                   # uninterrupted (nextTask initial) (length (sources initial)) []
                   @ failing (nextTask initial + length ([] :: (string \<times> audioBuffer) list))
                       (SynthesisFails RemoteError))
                  initial
      in reported (added initial s') = [''Failed to generate or play audio for a segment.'']
         \<and> \<not> isSpeaking s'
         \<and> synthesisCalls (added initial s')
             = [(''Here is the overall summary of your portfolio prediction: Good'', ''English'')]
         \<and> exec charCodes [SynthesisSettled 0 (audioResponse ''QUJD''), Ended 0] s' = s')"
    unfolding Let_def c by blast
  with h1 h2 h3 h4 h5 show ?thesis by blast
qed

lemma uninterrupted_append:
  "uninterrupted t i (xs @ ys)
     = uninterrupted t i xs @ uninterrupted (t + length xs) (i + length xs) ys"
  by (induction t i xs rule: uninterrupted.induct) simp_all

lemma runEffects_calls_halt:
  assumes "[] \<notin> set pre" and "length ans = Suc (length pre)"
  shows "synthesisCalls (runEffects decode lang c i ans (pre @ [] # rest))
           = map (\<lambda>x. (x, lang)) pre"
  using assms
proof (induction pre arbitrary: ans c i)
  case Nil
  then obtain a where "ans = [a]" by (cases ans) auto
  then show ?case by (cases a) simp
next
  case (Cons x pre)
  then obtain a ans' where a: "ans = a # ans'" by (cases ans) auto
  with Cons show ?case by (cases a) (auto simp: synthesisCalls_append)
qed

lemma run_halt:
  assumes "session s t tx (pre @ [] # rest)" and "decodable decode ans"
    and "length ans = Suc (length pre)" and "[] \<notin> set pre"
  defines "s' \<equiv> exec decode (uninterrupted t (length (sources s)) ans) s"
  shows "quiescent s'" and "isSpeaking s'" and "audioQueueRef s' = rest"
proof -
  from assms(3) obtain ans' a where ans: "ans = ans' @ [a]"
    by (cases ans rule: rev_cases) auto
  obtain d b where a: "a = (d, b)" by (cases a)
  from assms(2) ans a obtain bs where d: "d \<noteq> []" "decode d = Some bs"
    and rest: "decodable decode ans'"
    by (auto simp: decodable_def)
  from ans assms(3) have l: "length ans' = length pre" by simp
  let ?m = "exec decode (uninterrupted t (length (sources s)) ans') s"
  from run_partial [OF assms(1) rest] l assms(4)
  have m: "session ?m (t + length ans') ((tx # pre @ [] # rest) ! length ans') ([] # rest)"
    and ml: "length (sources ?m) = length (sources s) + length ans'"
    by simp_all
  have s': "s' = exec decode [SynthesisSettled (t + length ans') (audioResponse d),
                    ResumeSettled (t + length ans') True,
                    DecodeAudioDataSettled (t + length ans') (Some b),
                    Ended (length (sources ?m))] ?m"
    unfolding s'_def ans a uninterrupted_append by (simp add: exec_append ml)
  note fin = segment_then_halt [where s = ?m and b = b and decode = decode, OF m d]
  show "quiescent s'" "isSpeaking s'" "audioQueueRef s' = rest"
    unfolding s' using fin by simp_all
qed

text \<open>
  C10. When the head of the queue is the empty string, \<open>playNextInQueue\<close> only removes
  it: no synthesis, no playback, no further call of itself, \<open>isSpeaking\<close> unchanged. So a
  session whose queue holds an empty segment plays the segments before it and halts
  there, with \<open>isSpeaking\<close> left true and the rest of the queue never requested.
\<close>

theorem empty_segment_halts:
  "(\<not> isStoppedManuallyRef s \<and> audioQueueRef s = [] # rest \<longrightarrow>
      playNextInQueue s = s\<lparr>audioQueueRef := rest\<rparr>)
   \<and> (session s t tx (pre @ [] # rest) \<and> [] \<notin> set pre \<and> decodable decode ans
        \<and> length ans = Suc (length pre) \<longrightarrow>
        (let s' = exec decode (uninterrupted t (length (sources s)) ans) s
         in isSpeaking s' \<and> quiescent s' \<and> audioQueueRef s' = rest
            \<and> synthesisCalls (added s s') = map (\<lambda>x. (x, language s)) pre))"
proof (intro conjI impI)
  assume "\<not> isStoppedManuallyRef s \<and> audioQueueRef s = [] # rest"
  then show "playNextInQueue s = s\<lparr>audioQueueRef := rest\<rparr>"
    by (simp add: playNextInQueue_def)
next
  assume a: "session s t tx (pre @ [] # rest) \<and> [] \<notin> set pre \<and> decodable decode ans
        \<and> length ans = Suc (length pre)"
  then have s: "session s t tx (pre @ [] # rest)" and n: "[] \<notin> set pre"
    and d: "decodable decode ans" and l: "length ans = Suc (length pre)" by simp_all
  let ?s' = "exec decode (uninterrupted t (length (sources s)) ans) s"
  note fin = run_halt [OF s d l n]
  have "synthesisCalls (added s ?s') = map (\<lambda>x. (x, language s)) pre"
    using added_append [OF run_trace [OF s d]] runEffects_calls_halt [OF n l] by simp
  with fin show "let s' = ?s'
         in isSpeaking s' \<and> quiescent s' \<and> audioQueueRef s' = rest
            \<and> synthesisCalls (added s s') = map (\<lambda>x. (x, language s)) pre"
    by (simp add: Let_def)
qed

theorem empty_segment_halts_witness:
  "\<not> isStoppedManuallyRef (initial\<lparr>audioQueueRef := [[], ''B'']\<rparr>)
   \<and> audioQueueRef (initial\<lparr>audioQueueRef := [[], ''B'']\<rparr>) = [] # [''B'']
   \<and> playNextInQueue (initial\<lparr>audioQueueRef := [[], ''B'']\<rparr>)
       = initial\<lparr>audioQueueRef := [''B'']\<rparr>
   \<and> session emptySecond 0 ''A'' ([] @ [] # [''B'']) \<and> [] \<notin> set ([]::string list)
   \<and> decodable charCodes [(''QUJD'', [1, 2])]
   \<and> length [(''QUJD'', [1::int, 2])] = Suc (length ([]::string list))
   \<and> (let s' = exec charCodes (uninterrupted 0 (length (sources emptySecond)) [(''QUJD'', [1, 2])])
                  emptySecond
      in isSpeaking s' \<and> quiescent s' \<and> audioQueueRef s' = [''B'']
         \<and> synthesisCalls (added emptySecond s') = map (\<lambda>x. (x, language emptySecond)) [])"
proof -
  have h1: "\<not> isStoppedManuallyRef (initial\<lparr>audioQueueRef := [[], ''B'']\<rparr>)
            \<and> audioQueueRef (initial\<lparr>audioQueueRef := [[], ''B'']\<rparr>) = [] # [''B'']"
    by (simp add: initial_def)
  have h2: "session emptySecond 0 ''A'' ([] @ [] # [''B'']) \<and> [] \<notin> set ([]::string list)
   \<and> decodable charCodes [(''QUJD'', [1, 2])]
   \<and> length [(''QUJD'', [1::int, 2])] = Suc (length ([]::string list))"
    by (simp add: session_def emptySecond_def playNextInQueue_def initial_def decodable_def
          charCodes_def)
  from empty_segment_halts [where s = "initial\<lparr>audioQueueRef := [[], ''B'']\<rparr>"
      and rest = "[''B'']"] h1
  have p1: "playNextInQueue (initial\<lparr>audioQueueRef := [[], ''B'']\<rparr>)
              = initial\<lparr>audioQueueRef := [''B'']\<rparr>"
    by simp
  from empty_segment_halts [where s = emptySecond and rest = "[''B'']" and t = 0
      and tx = "''A''" and pre = "[]" and decode = charCodes and ans = "[(''QUJD'', [1, 2])]"] h2
  have p2: "(let s' = exec charCodes (uninterrupted 0 (length (sources emptySecond))
                        [(''QUJD'', [1, 2])]) emptySecond
      in isSpeaking s' \<and> quiescent s' \<and> audioQueueRef s' = [''B'']
         \<and> synthesisCalls (added emptySecond s') = map (\<lambda>x. (x, language emptySecond)) [])"
    by blast
  from h1 h2 p1 p2 show ?thesis by blast
qed

section \<open>The decoding parameters, on every path\<close>

lemma unpark_waiting_le:
  "length (filter awaitsDecode (filter (\<lambda>p. fst p \<noteq> t) xs)) \<le> length (filter awaitsDecode xs)"
  by (induction xs) auto

lemma unpark_waiting_less:
  assumes "map_of xs t = Some (AwaitDecodeAudioData bs rate channels)"
  shows "Suc (length (filter awaitsDecode (filter (\<lambda>p. fst p \<noteq> t) xs)))
           \<le> length (filter awaitsDecode xs)"
  using assms
proof (induction xs)
  case Nil
  then show ?case by simp
next
  case (Cons x xs)
  obtain u st where x: "x = (u, st)" by (cases x)
  show ?case
  proof (cases "u = t")
    case True
    with Cons.prems x have "st = AwaitDecodeAudioData bs rate channels" by simp
    with True x show ?thesis
      using unpark_waiting_le [of t xs] by simp
  next
    case False
    with Cons x show ?thesis by auto
  qed
qed

lemma decoded_catchSegment: "decoded s \<Longrightarrow> decoded (catchSegment s)"
  by (simp add: decoded_def)

lemma decoded_unpark:
  assumes "decoded s"
  shows "decoded (unpark t s)"
proof -
  have "length (filter awaitsDecode (tasks (unpark t s)))
          \<le> length (filter awaitsDecode (tasks s))"
    using unpark_waiting_le [of t "tasks s"] by (simp only: unpark_fields)
  then show ?thesis using assms by (simp add: decoded_def del: unpark_fields(6))
qed

lemma decoded_playNextInQueue: "decoded s \<Longrightarrow> decoded (playNextInQueue s)"
  by (auto simp: decoded_def playNextInQueue_def Let_def split: list.splits)

lemma decoded_stopPlayback: "decoded s \<Longrightarrow> decoded (stopPlayback s)"
  by (cases "audioContextRef s" rule: suspendEffects.cases)
     (auto simp: decoded_def stopPlayback_def Let_def split: option.splits)

lemma decoded_handleSpeak: "decoded s \<Longrightarrow> decoded (handleSpeak p s)"
proof (cases p)
  case None
  then show "decoded s \<Longrightarrow> ?thesis" by (simp add: handleSpeak_def)
next
  case (Some a)
  assume d: "decoded s"
  show ?thesis
  proof (cases "isSpeaking s")
    case True
    with Some d show ?thesis by (simp add: handleSpeak_def decoded_stopPlayback)
  next
    case False
    have "decoded ((setIsSpeaking True (setError None s))
                    \<lparr>isStoppedManuallyRef := False, audioQueueRef := textChunks a\<rparr>)"
      using d by (simp add: decoded_def)
    then show ?thesis using Some False
      by (simp add: handleSpeak_def Let_def decoded_playNextInQueue)
  qed
qed

lemma decoded_afterResume:
  assumes "decoded s"
  shows "decoded (afterResume decode t d s)"
  using assms by (auto simp: afterResume_def decoded_def split: option.splits)

lemma decoded_afterSynthesis:
  assumes "decoded s"
  shows "decoded (afterSynthesis decode t d s)"
proof -
  have e: "decoded (ensureContext s)" using assms by (simp add: decoded_def)
  have r: "decoded (park t (AwaitResume d) (emit ContextResume (ensureContext s)))"
    using assms by (simp add: decoded_def)
  show ?thesis
    unfolding afterSynthesis_def Let_def using r decoded_afterResume [OF e] by simp
qed

lemma decoded_step:
  assumes "decoded s"
  shows "decoded (step decode ev s)"
proof (cases ev)
  case (HandleSpeak p)
  with assms show ?thesis by (simp add: step_def decoded_handleSpeak)
next
  case StopPlayback
  with assms show ?thesis by (simp add: step_def decoded_stopPlayback)
next
  case Unmount
  with assms show ?thesis by (simp add: step_def unmount_def decoded_stopPlayback)
next
  case (SynthesisSettled t r)
  with assms show ?thesis
    by (auto simp: step_def decoded_catchSegment decoded_unpark decoded_afterSynthesis
             split: option.splits stage.splits sum.splits)
next
  case (ResumeSettled t ok)
  have "decoded ((unpark t s)\<lparr>audioContextRef := Some Running\<rparr>)"
    using decoded_unpark [OF assms, of t] by (simp add: decoded_def)
  with ResumeSettled assms show ?thesis
    by (auto simp: step_def decoded_catchSegment decoded_unpark decoded_afterResume
             split: option.splits stage.splits)
next
  case (DecodeAudioDataSettled t r)
  show ?thesis
  proof (cases "\<exists>bs rate channels. map_of (tasks s) t = Some (AwaitDecodeAudioData bs rate channels)")
    case False
    with DecodeAudioDataSettled assms show ?thesis
      by (auto simp: step_def split: option.splits stage.splits)
  next
    case True
    then obtain bs rate channels
      where tk: "map_of (tasks s) t = Some (AwaitDecodeAudioData bs rate channels)"
      by blast
    show ?thesis
    proof (cases r)
      case None
      with tk DecodeAudioDataSettled assms show ?thesis
        by (simp add: step_def decoded_catchSegment decoded_unpark)
    next
      case (Some b)
      have w: "Suc (length (filter awaitsDecode (tasks (unpark t s))))
                 \<le> length (filter awaitsDecode (tasks s))"
        using unpark_waiting_less [OF tk] by (simp only: unpark_fields)
      have "decoded (startSource b (unpark t s))"
        using assms w by (simp add: decoded_def del: unpark_fields(6))
      with Some tk DecodeAudioDataSettled show ?thesis
        by (simp add: step_def afterDecodeAudioData_def)
    qed
  qed
next
  case (Ended i)
  show ?thesis
  proof (cases "map_of (sources s) i")
    case None
    with Ended assms show ?thesis by (simp add: step_def)
  next
    case (Some n)
    have a: "decoded (emit (SourceEnded i) (setNode i (n\<lparr>status := Finished\<rparr>) s))"
      using assms by (simp add: decoded_def)
    then have "decoded ((emit (SourceEnded i) (setNode i (n\<lparr>status := Finished\<rparr>) s))
                         \<lparr>audioSourceRef := None\<rparr>)"
      by (simp add: decoded_def)
    then have b: "decoded (onendedSegment
                     (emit (SourceEnded i) (setNode i (n\<lparr>status := Finished\<rparr>) s)))"
      unfolding onendedSegment_def by (rule decoded_playNextInQueue)
    from Ended Some assms a b show ?thesis by (simp add: step_def Let_def)
  qed
qed

lemma decoded_exec: "decoded s \<Longrightarrow> decoded (exec decode evs s)"
  by (induction evs arbitrary: s) (simp_all add: exec_def decoded_step)

lemma decoded_advisorCatch: "decoded s \<Longrightarrow> decoded (advisorCatch s)"
  by (simp add: decoded_def advisorCatch_def)

lemma decoded_advisorStopPlayback: "decoded s \<Longrightarrow> decoded (advisorStopPlayback s)"
  by (cases "audioContextRef s" rule: suspendEffects.cases)
     (auto simp: decoded_def advisorStopPlayback_def Let_def split: option.splits)

lemma decoded_advisorHandleSpeak: "decoded s \<Longrightarrow> decoded (advisorHandleSpeak a s)"
  by (cases a)
     (auto simp: advisorHandleSpeak_def Let_def decoded_advisorStopPlayback, simp add: decoded_def)

lemma decoded_advisorAfterResume:
  assumes "decoded s"
  shows "decoded (advisorAfterResume decode t d s)"
  using assms
  by (auto simp: advisorAfterResume_def decoded_def advisorCatch_def split: option.splits)

lemma decoded_advisorAfterSynthesis:
  assumes "decoded s"
  shows "decoded (advisorAfterSynthesis decode t d s)"
proof -
  have e: "decoded (ensureContext s)" using assms by (simp add: decoded_def)
  have r: "decoded (park t (AwaitResume d) (emit ContextResume (ensureContext s)))"
    using assms by (simp add: decoded_def)
  show ?thesis
    unfolding advisorAfterSynthesis_def Let_def
    using r decoded_advisorAfterResume [OF e] by simp
qed

lemma decoded_advisorStep:
  assumes "decoded s"
  shows "decoded (advisorStep decode ev s)"
proof (cases ev)
  case (HandleSpeak a)
  with assms show ?thesis by (simp add: advisorStep_def decoded_advisorHandleSpeak)
next
  case StopPlayback
  with assms show ?thesis by (simp add: advisorStep_def decoded_advisorStopPlayback)
next
  case Unmount
  with assms show ?thesis by (simp add: advisorStep_def advisorUnmount_def)
next
  case (SynthesisSettled t r)
  with assms show ?thesis
    by (auto simp: advisorStep_def decoded_advisorCatch decoded_unpark
                   decoded_advisorAfterSynthesis
             split: option.splits stage.splits sum.splits)
next
  case (ResumeSettled t ok)
  have "decoded ((unpark t s)\<lparr>audioContextRef := Some Running\<rparr>)"
    using decoded_unpark [OF assms, of t] by (simp add: decoded_def)
  with ResumeSettled assms show ?thesis
    by (auto simp: advisorStep_def decoded_advisorCatch decoded_unpark
                   decoded_advisorAfterResume
             split: option.splits stage.splits)
next
  case (DecodeAudioDataSettled t r)
  show ?thesis
  proof (cases "\<exists>bs rate channels. map_of (tasks s) t = Some (AwaitDecodeAudioData bs rate channels)")
    case False
    with DecodeAudioDataSettled assms show ?thesis
      by (auto simp: advisorStep_def split: option.splits stage.splits)
  next
    case True
    then obtain bs rate channels
      where tk: "map_of (tasks s) t = Some (AwaitDecodeAudioData bs rate channels)"
      by blast
    show ?thesis
    proof (cases r)
      case None
      with tk DecodeAudioDataSettled assms show ?thesis
        by (simp add: advisorStep_def decoded_advisorCatch decoded_unpark)
    next
      case (Some b)
      have w: "Suc (length (filter awaitsDecode (tasks (unpark t s))))
                 \<le> length (filter awaitsDecode (tasks s))"
        using unpark_waiting_less [OF tk] by (simp only: unpark_fields)
      have "decoded (advisorAfterDecodeAudioData b (unpark t s))"
        using assms w
        by (simp add: decoded_def advisorAfterDecodeAudioData_def del: unpark_fields(6)
                 split: option.splits)
      with Some tk DecodeAudioDataSettled show ?thesis
        by (simp add: advisorStep_def)
    qed
  qed
next
  case (Ended i)
  show ?thesis
  proof (cases "map_of (sources s) i")
    case None
    with Ended assms show ?thesis by (simp add: advisorStep_def)
  next
    case (Some n)
    have a: "decoded (emit (SourceEnded i) (setNode i (n\<lparr>status := Finished\<rparr>) s))"
      using assms by (simp add: decoded_def)
    then have b: "decoded (advisorOnended
                     (emit (SourceEnded i) (setNode i (n\<lparr>status := Finished\<rparr>) s)))"
      by (simp add: decoded_def advisorOnended_def)
    from Ended Some assms a b show ?thesis by (simp add: advisorStep_def Let_def)
  qed
qed

lemma decoded_advisorExec: "decoded s \<Longrightarrow> decoded (advisorExec decode evs s)"
  by (induction evs arbitrary: s) (simp_all add: advisorExec_def decoded_advisorStep)

lemmas advisor_defs = advisorExec_def advisorStep_def advisorHandleSpeak_def
  advisorAfterSynthesis_def advisorAfterResume_def advisorAfterDecodeAudioData_def
  advisorOnended_def advisorUnmount_def advisorInitial_def Let_def

lemma returned_mono: "returned evs t d \<Longrightarrow> set evs \<subseteq> set evs' \<Longrightarrow> returned evs' t d"
  unfolding returned_def by blast

lemma decodedFrom_mono:
  "decodedFrom decode evs tr t bs \<Longrightarrow> set evs \<subseteq> set evs' \<Longrightarrow> set tr \<subseteq> set tr'
     \<Longrightarrow> decodedFrom decode evs' tr' t bs"
  unfolding decodedFrom_def using returned_mono by blast

lemma playsDecoded_mono:
  "playsDecoded decode evs tr b \<Longrightarrow> set evs \<subseteq> set evs' \<Longrightarrow> set tr \<subseteq> set tr'
     \<Longrightarrow> playsDecoded decode evs' tr' b"
  unfolding playsDecoded_def using decodedFrom_mono by blast

lemma frame_refl [simp]: "frame s s"
  by (auto simp: frame_def)

lemma frame_trans:
  assumes "frame s s'" and "frame s' s''"
  shows "frame s s''"
  unfolding frame_def
proof (intro conjI)
  show "set (trace s) \<subseteq> set (trace s'')"
    using assms unfolding frame_def by blast
  show "\<forall>p \<in> set (sources s''). \<exists>q \<in> set (sources s). buffer (snd p) = buffer (snd q)"
  proof
    fix p assume "p \<in> set (sources s'')"
    with assms(2) obtain q where "q \<in> set (sources s')" "buffer (snd p) = buffer (snd q)"
      unfolding frame_def by blast
    moreover from this assms(1) obtain q' where "q' \<in> set (sources s)"
      "buffer (snd q) = buffer (snd q')"
      unfolding frame_def by blast
    ultimately show "\<exists>q \<in> set (sources s). buffer (snd p) = buffer (snd q)" by auto
  qed
  show "\<forall>t st. (t, st) \<in> set (tasks s'') \<longrightarrow>
            (t, st) \<in> set (tasks s) \<or> (\<exists>tx. st = AwaitSynthesis tx)"
    using assms unfolding frame_def by blast
qed

lemma provenance_frame:
  assumes "provenance decode evs s" and "frame s s'"
  shows "provenance decode evs s'"
  unfolding provenance_def
proof (intro conjI)
  have m: "set (trace s) \<subseteq> set (trace s')" using assms(2) by (simp add: frame_def)
  show "\<forall>t d. (t, AwaitResume d) \<in> set (tasks s') \<longrightarrow> returned evs t d"
  proof (intro allI impI)
    fix t d assume "(t, AwaitResume d) \<in> set (tasks s')"
    with assms(2) have "(t, AwaitResume d) \<in> set (tasks s)" by (auto simp: frame_def)
    with assms(1) show "returned evs t d" by (simp add: provenance_def)
  qed
  show "\<forall>t bs rate channels. (t, AwaitDecodeAudioData bs rate channels) \<in> set (tasks s') \<longrightarrow>
            rate = 24000 \<and> channels = 1 \<and> decodedFrom decode evs (trace s') t bs"
  proof (intro allI impI)
    fix t bs rate channels
    assume "(t, AwaitDecodeAudioData bs rate channels) \<in> set (tasks s')"
    with assms(2) have "(t, AwaitDecodeAudioData bs rate channels) \<in> set (tasks s)"
      by (auto simp: frame_def)
    with assms(1) have "rate = 24000" "channels = 1" "decodedFrom decode evs (trace s) t bs"
      by (auto simp: provenance_def)
    then show "rate = 24000 \<and> channels = 1 \<and> decodedFrom decode evs (trace s') t bs"
      using decodedFrom_mono [OF _ subset_refl m] by blast
  qed
  show "\<forall>p \<in> set (sources s'). playsDecoded decode evs (trace s') (buffer (snd p))"
  proof
    fix p assume "p \<in> set (sources s')"
    with assms(2) obtain q where "q \<in> set (sources s)" "buffer (snd p) = buffer (snd q)"
      by (auto simp: frame_def)
    with assms(1) have "playsDecoded decode evs (trace s) (buffer (snd p))"
      by (auto simp: provenance_def)
    then show "playsDecoded decode evs (trace s') (buffer (snd p))"
      using playsDecoded_mono [OF _ subset_refl m] by blast
  qed
qed

lemma provenance_events:
  assumes "provenance decode evs s" and "set evs \<subseteq> set evs'"
  shows "provenance decode evs' s"
  unfolding provenance_def
proof (intro conjI)
  show "\<forall>t d. (t, AwaitResume d) \<in> set (tasks s) \<longrightarrow> returned evs' t d"
    using assms returned_mono unfolding provenance_def by blast
  show "\<forall>t bs rate channels. (t, AwaitDecodeAudioData bs rate channels) \<in> set (tasks s) \<longrightarrow>
            rate = 24000 \<and> channels = 1 \<and> decodedFrom decode evs' (trace s) t bs"
  proof (intro allI impI)
    fix t bs rate channels
    assume "(t, AwaitDecodeAudioData bs rate channels) \<in> set (tasks s)"
    with assms(1) have "rate = 24000" "channels = 1" "decodedFrom decode evs (trace s) t bs"
      by (auto simp: provenance_def)
    then show "rate = 24000 \<and> channels = 1 \<and> decodedFrom decode evs' (trace s) t bs"
      using decodedFrom_mono [OF _ assms(2) subset_refl] by blast
  qed
  show "\<forall>p \<in> set (sources s). playsDecoded decode evs' (trace s) (buffer (snd p))"
  proof
    fix p assume "p \<in> set (sources s)"
    with assms(1) have "playsDecoded decode evs (trace s) (buffer (snd p))"
      by (auto simp: provenance_def)
    then show "playsDecoded decode evs' (trace s) (buffer (snd p))"
      using playsDecoded_mono [OF _ assms(2) subset_refl] by blast
  qed
qed

lemma provenance_parkResume:
  assumes "provenance decode evs s" and "returned evs t d"
  shows "provenance decode evs (park t (AwaitResume d) s)"
  using assms by (auto simp: provenance_def)

lemma provenance_parkDecode:
  assumes "provenance decode evs s" and "decodedFrom decode evs (trace s) t bs"
  shows "provenance decode evs (park t (AwaitDecodeAudioData bs 24000 1) s)"
  using assms by (auto simp: provenance_def)

lemma provenance_startSource:
  assumes "provenance decode evs s" and "playsDecoded decode evs (trace s) b"
  shows "provenance decode evs (startSource b s)"
  unfolding provenance_def
proof (intro conjI)
  have m: "set (trace s) \<subseteq> set (trace (startSource b s))" by auto
  show "\<forall>t d. (t, AwaitResume d) \<in> set (tasks (startSource b s)) \<longrightarrow> returned evs t d"
    using assms(1) by (simp add: provenance_def)
  show "\<forall>t bs rate channels.
          (t, AwaitDecodeAudioData bs rate channels) \<in> set (tasks (startSource b s)) \<longrightarrow>
            rate = 24000 \<and> channels = 1
            \<and> decodedFrom decode evs (trace (startSource b s)) t bs"
  proof (intro allI impI)
    fix t bs rate channels
    assume "(t, AwaitDecodeAudioData bs rate channels) \<in> set (tasks (startSource b s))"
    with assms(1) have "rate = 24000" "channels = 1" "decodedFrom decode evs (trace s) t bs"
      by (auto simp: provenance_def)
    then show "rate = 24000 \<and> channels = 1
                 \<and> decodedFrom decode evs (trace (startSource b s)) t bs"
      using decodedFrom_mono [OF _ subset_refl m] by blast
  qed
  show "\<forall>p \<in> set (sources (startSource b s)).
          playsDecoded decode evs (trace (startSource b s)) (buffer (snd p))"
  proof
    fix p assume "p \<in> set (sources (startSource b s))"
    then have "p \<in> set (sources s) \<or> buffer (snd p) = b" by auto
    with assms have "playsDecoded decode evs (trace s) (buffer (snd p))"
      by (auto simp: provenance_def)
    then show "playsDecoded decode evs (trace (startSource b s)) (buffer (snd p))"
      using playsDecoded_mono [OF _ subset_refl m] by blast
  qed
qed

lemma detachOnended_sources:
  "sources (detachOnended i s) =
     (case map_of (sources s) i of
        None \<Rightarrow> sources s
      | Some n \<Rightarrow> map (\<lambda>p. if fst p = i then (i, n\<lparr>onended := False\<rparr>) else p) (sources s))"
  by (simp add: detachOnended_def setNode_def split: option.splits)

lemma same_buffers:
  assumes "map_of xs i = Some n" and "buffer n' = buffer n"
  shows "\<forall>p \<in> set (map (\<lambda>p. if fst p = i then (i, n') else p) xs).
           \<exists>q \<in> set xs. buffer (snd p) = buffer (snd q)"
proof
  fix p assume "p \<in> set (map (\<lambda>p. if fst p = i then (i, n') else p) xs)"
  then have "p \<in> (\<lambda>p. if fst p = i then (i, n') else p) ` set xs" by simp
  then obtain q where q: "q \<in> set xs" "p = (if fst q = i then (i, n') else q)" by blast
  from assms(1) have n: "(i, n) \<in> set xs" by (rule map_of_SomeD)
  show "\<exists>q \<in> set xs. buffer (snd p) = buffer (snd q)"
  proof (cases "fst q = i")
    case True
    with q assms(2) have "buffer (snd p) = buffer (snd (i, n))" by simp
    with n show ?thesis by blast
  next
    case False
    with q show ?thesis by auto
  qed
qed

lemma frame_step:
  assumes "frame s s'" and "set (trace s') \<subseteq> set (trace s'')"
    and "\<forall>p \<in> set (sources s''). \<exists>q \<in> set (sources s'). buffer (snd p) = buffer (snd q)"
    and "\<forall>t st. (t, st) \<in> set (tasks s'') \<longrightarrow>
            (t, st) \<in> set (tasks s') \<or> (\<exists>tx. st = AwaitSynthesis tx)"
  shows "frame s s''"
  using assms(1) by (rule frame_trans) (simp add: frame_def assms(2-4))

lemma frame_emit: "frame s s' \<Longrightarrow> frame s (emit e s')"
  by (rule frame_step) auto

lemma frame_setIsSpeaking: "frame s s' \<Longrightarrow> frame s (setIsSpeaking b s')"
  by (rule frame_step) auto

lemma frame_setError: "frame s s' \<Longrightarrow> frame s (setError x s')"
  by (rule frame_step) auto

lemma frame_unpark: "frame s s' \<Longrightarrow> frame s (unpark t s')"
  by (rule frame_step) auto

lemma frame_spawn: "frame s s' \<Longrightarrow> frame s (spawn (AwaitSynthesis tx) s')"
  by (rule frame_step) auto

lemma frame_sourceDisconnect: "frame s s' \<Longrightarrow> frame s (sourceDisconnect i s')"
  by (rule frame_step) auto

lemma frame_ensureContext: "frame s s' \<Longrightarrow> frame s (ensureContext s')"
  by (rule frame_step) auto

lemma frame_suspendContext: "frame s s' \<Longrightarrow> frame s (suspendContext s')"
  by (rule frame_step) auto

lemma frame_sourceStop: "frame s s' \<Longrightarrow> frame s (sourceStop i s')"
proof (rule frame_step)
  show "\<forall>p \<in> set (sources (sourceStop i s')).
          \<exists>q \<in> set (sources s'). buffer (snd p) = buffer (snd q)"
  proof (cases "map_of (sources s') i")
    case None
    then show ?thesis by (auto simp: sourceStop_sources)
  next
    case (Some n)
    show ?thesis
    proof (cases "status n = Playing")
      case True
      with Some same_buffers [OF Some, of "n\<lparr>status := Stopped\<rparr>"] show ?thesis
        by (simp add: sourceStop_sources)
    next
      case False
      with Some show ?thesis by (auto simp: sourceStop_sources)
    qed
  qed
qed auto

lemma frame_detachOnended: "frame s s' \<Longrightarrow> frame s (detachOnended i s')"
proof (rule frame_step)
  show "\<forall>p \<in> set (sources (detachOnended i s')).
          \<exists>q \<in> set (sources s'). buffer (snd p) = buffer (snd q)"
  proof (cases "map_of (sources s') i")
    case None
    then show ?thesis by (auto simp: detachOnended_sources)
  next
    case (Some n)
    with same_buffers [OF Some, of "n\<lparr>onended := False\<rparr>"] show ?thesis
      by (simp add: detachOnended_sources)
  qed
qed auto

lemma frame_ended:
  assumes "frame s s'" and "map_of (sources s') i = Some n"
  shows "frame s (setNode i (n\<lparr>status := Finished\<rparr>) s')"
  using assms(1)
proof (rule frame_step)
  show "\<forall>p \<in> set (sources (setNode i (n\<lparr>status := Finished\<rparr>) s')).
          \<exists>q \<in> set (sources s'). buffer (snd p) = buffer (snd q)"
    using same_buffers [OF assms(2), of "n\<lparr>status := Finished\<rparr>"] by simp
qed auto

lemma frame_fields:
  "frame s s' \<Longrightarrow> frame s (s'\<lparr>audioSourceRef := a\<rparr>)"
  "frame s s' \<Longrightarrow> frame s (s'\<lparr>audioContextRef := c\<rparr>)"
  by (simp_all add: frame_def)

lemma frame_queue:
  "frame s s' \<Longrightarrow> frame s (s'\<lparr>audioQueueRef := q\<rparr>)"
  "frame s s' \<Longrightarrow> frame s (s'\<lparr>isStoppedManuallyRef := f\<rparr>)"
  by (simp_all add: frame_def)

lemmas frame_rules = frame_emit frame_setIsSpeaking frame_setError frame_unpark frame_spawn
  frame_sourceDisconnect frame_ensureContext frame_suspendContext frame_sourceStop
  frame_detachOnended frame_fields frame_queue

lemma frame_catchSegment: "frame s s' \<Longrightarrow> frame s (catchSegment s')"
  unfolding catchSegment_def by (intro frame_rules)

lemma frame_playNextInQueue: "frame s s' \<Longrightarrow> frame s (playNextInQueue s')"
  unfolding playNextInQueue_def Let_def
  by (auto split: list.splits intro!: frame_rules)

lemma frame_stopPlayback: "frame s s' \<Longrightarrow> frame s (stopPlayback s')"
  unfolding stopPlayback_def Let_def
  by (auto split: option.splits intro!: frame_rules)

lemma frame_handleSpeak: "frame s s' \<Longrightarrow> frame s (handleSpeak p s')"
  unfolding handleSpeak_def Let_def
  by (auto split: option.splits intro!: frame_rules frame_stopPlayback frame_playNextInQueue)

lemma frame_advisorCatch: "frame s s' \<Longrightarrow> frame s (advisorCatch s')"
  unfolding advisorCatch_def by (intro frame_rules)

lemma frame_advisorStopPlayback: "frame s s' \<Longrightarrow> frame s (advisorStopPlayback s')"
  unfolding advisorStopPlayback_def Let_def
  by (auto split: option.splits intro!: frame_rules)

lemma frame_advisorHandleSpeak: "frame s s' \<Longrightarrow> frame s (advisorHandleSpeak a s')"
  unfolding advisorHandleSpeak_def Let_def
  by (auto split: option.splits intro!: frame_rules frame_advisorStopPlayback)

lemma frame_advisorOnended: "frame s s' \<Longrightarrow> frame s (advisorOnended s')"
  unfolding advisorOnended_def by (intro frame_rules)

lemma provenance_afterResume:
  assumes "provenance decode evs s" and "returned evs t d"
  shows "provenance decode evs (afterResume decode t d s)"
proof (cases "decode d")
  case None
  then show ?thesis
    using provenance_frame [OF assms(1) frame_catchSegment [OF frame_refl]]
    by (simp add: afterResume_def)
next
  case (Some bs)
  let ?s = "emit (CallDecodeAudioData bs 24000 1) s"
  have p: "provenance decode evs ?s"
    by (rule provenance_frame [OF assms(1) frame_emit [OF frame_refl]])
  have "decodedFrom decode evs (trace ?s) t bs"
    unfolding decodedFrom_def using assms(2) Some by auto
  from provenance_parkDecode [OF p this] Some show ?thesis
    by (simp add: afterResume_def)
qed

lemma provenance_afterSynthesis:
  assumes "provenance decode evs s" and "returned evs t d"
  shows "provenance decode evs (afterSynthesis decode t d s)"
proof -
  have e: "provenance decode evs (ensureContext s)"
    by (rule provenance_frame [OF assms(1) frame_ensureContext [OF frame_refl]])
  have r: "provenance decode evs (park t (AwaitResume d) (emit ContextResume (ensureContext s)))"
    by (rule provenance_parkResume
          [OF provenance_frame [OF e frame_emit [OF frame_refl]] assms(2)])
  show ?thesis
    unfolding afterSynthesis_def Let_def
    using r provenance_afterResume [OF e assms(2)] by simp
qed

lemma provenance_advisorAfterResume:
  assumes "provenance decode evs s" and "returned evs t d"
  shows "provenance decode evs (advisorAfterResume decode t d s)"
proof (cases "decode d")
  case None
  then show ?thesis
    using provenance_frame [OF assms(1) frame_advisorCatch [OF frame_refl]]
    by (simp add: advisorAfterResume_def)
next
  case (Some bs)
  let ?s = "emit (CallDecodeAudioData bs 24000 1) s"
  have p: "provenance decode evs ?s"
    by (rule provenance_frame [OF assms(1) frame_emit [OF frame_refl]])
  have "decodedFrom decode evs (trace ?s) t bs"
    unfolding decodedFrom_def using assms(2) Some by auto
  from provenance_parkDecode [OF p this] Some show ?thesis
    by (simp add: advisorAfterResume_def)
qed

lemma provenance_advisorAfterSynthesis:
  assumes "provenance decode evs s" and "returned evs t d"
  shows "provenance decode evs (advisorAfterSynthesis decode t d s)"
proof -
  have e: "provenance decode evs (ensureContext s)"
    by (rule provenance_frame [OF assms(1) frame_ensureContext [OF frame_refl]])
  have r: "provenance decode evs (park t (AwaitResume d) (emit ContextResume (ensureContext s)))"
    by (rule provenance_parkResume
          [OF provenance_frame [OF e frame_emit [OF frame_refl]] assms(2)])
  show ?thesis
    unfolding advisorAfterSynthesis_def Let_def
    using r provenance_advisorAfterResume [OF e assms(2)] by simp
qed

lemma provenance_step:
  assumes "provenance decode evs s"
  shows "provenance decode (evs @ [ev]) (step decode ev s)"
proof -
  have sub: "set evs \<subseteq> set (evs @ [ev])" by auto
  note p = provenance_events [OF assms sub]
  have fr: "frame s s' \<Longrightarrow> provenance decode (evs @ [ev]) s'" for s'
    by (rule provenance_frame [OF p])
  have caught: "provenance decode (evs @ [ev]) (catchSegment (unpark t s))" for t
    by (rule fr) (intro frame_catchSegment frame_unpark frame_refl)
  show ?thesis
  proof (cases ev)
    case (HandleSpeak prd)
    with fr [OF frame_handleSpeak [OF frame_refl, where p = prd]] show ?thesis
      by (simp add: step_def)
  next
    case StopPlayback
    with fr [OF frame_stopPlayback [OF frame_refl]] show ?thesis
      by (simp add: step_def)
  next
    case Unmount
    with fr [OF frame_stopPlayback [OF frame_refl]] show ?thesis
      by (simp add: step_def unmount_def)
  next
    case (SynthesisSettled t r)
    show ?thesis
    proof (cases "\<exists>tx. map_of (tasks s) t = Some (AwaitSynthesis tx)")
      case False
      with SynthesisSettled p show ?thesis
        by (auto simp: step_def split: option.splits stage.splits)
    next
      case True
      then obtain tx where tk: "map_of (tasks s) t = Some (AwaitSynthesis tx)" by blast
      show ?thesis
      proof (cases "getTextToSpeechAudio (\<lambda>_. r) tx (language s)")
        case (Inl e)
        with tk SynthesisSettled caught [of t] show ?thesis
          by (simp add: step_def)
      next
        case (Inr d)
        have "returned (evs @ [ev]) t d"
          unfolding returned_def using SynthesisSettled Inr by auto
        from provenance_afterSynthesis [OF fr [OF frame_unpark [OF frame_refl]] this]
        show ?thesis using tk SynthesisSettled Inr by (simp add: step_def)
      qed
    qed
  next
    case (ResumeSettled t ok)
    show ?thesis
    proof (cases "\<exists>d. map_of (tasks s) t = Some (AwaitResume d)")
      case False
      with ResumeSettled p show ?thesis
        by (auto simp: step_def split: option.splits stage.splits)
    next
      case True
      then obtain d where tk: "map_of (tasks s) t = Some (AwaitResume d)" by blast
      then have "(t, AwaitResume d) \<in> set (tasks s)" by (rule map_of_SomeD)
      with p have rt: "returned (evs @ [ev]) t d" by (simp add: provenance_def)
      show ?thesis
      proof (cases ok)
        case True
        have "frame s ((unpark t s)\<lparr>audioContextRef := Some Running\<rparr>)"
          by (intro frame_rules frame_refl)
        from provenance_afterResume [OF fr [OF this] rt]
        show ?thesis using tk ResumeSettled True by (simp add: step_def)
      next
        case False
        with tk ResumeSettled caught [of t] show ?thesis
          by (simp add: step_def)
      qed
    qed
  next
    case (DecodeAudioDataSettled t r)
    show ?thesis
    proof (cases "\<exists>bs rate channels.
                    map_of (tasks s) t = Some (AwaitDecodeAudioData bs rate channels)")
      case False
      with DecodeAudioDataSettled p show ?thesis
        by (auto simp: step_def split: option.splits stage.splits)
    next
      case True
      then obtain bs rate channels
        where tk: "map_of (tasks s) t = Some (AwaitDecodeAudioData bs rate channels)"
        by blast
      then have "(t, AwaitDecodeAudioData bs rate channels) \<in> set (tasks s)"
        by (rule map_of_SomeD)
      with p have df: "decodedFrom decode (evs @ [ev]) (trace s) t bs"
        by (simp add: provenance_def)
      show ?thesis
      proof (cases r)
        case None
        with tk DecodeAudioDataSettled caught [of t] show ?thesis
          by (simp add: step_def)
      next
        case (Some b)
        have "playsDecoded decode (evs @ [ev]) (trace (unpark t s)) b"
          unfolding playsDecoded_def using df DecodeAudioDataSettled Some by auto
        from provenance_startSource [OF fr [OF frame_unpark [OF frame_refl]] this]
        show ?thesis using tk DecodeAudioDataSettled Some
          by (simp add: step_def afterDecodeAudioData_def)
      qed
    qed
  next
    case (Ended i)
    show ?thesis
    proof (cases "map_of (sources s) i")
      case None
      with Ended p show ?thesis by (simp add: step_def)
    next
      case (Some n)
      let ?s1 = "emit (SourceEnded i) (setNode i (n\<lparr>status := Finished\<rparr>) s)"
      have f1: "frame s ?s1"
        by (intro frame_emit frame_ended [OF frame_refl Some])
      have f2: "frame s (onendedSegment ?s1)"
        unfolding onendedSegment_def
        by (intro frame_playNextInQueue frame_fields f1)
      from Ended Some p fr [OF f1] fr [OF f2] show ?thesis
        by (simp add: step_def Let_def)
    qed
  qed
qed

lemma provenance_advisorStep:
  assumes "provenance decode evs s"
  shows "provenance decode (evs @ [ev]) (advisorStep decode ev s)"
proof -
  have sub: "set evs \<subseteq> set (evs @ [ev])" by auto
  note p = provenance_events [OF assms sub]
  have fr: "frame s s' \<Longrightarrow> provenance decode (evs @ [ev]) s'" for s'
    by (rule provenance_frame [OF p])
  have caught: "provenance decode (evs @ [ev]) (advisorCatch (unpark t s))" for t
    by (rule fr) (intro frame_advisorCatch frame_unpark frame_refl)
  show ?thesis
  proof (cases ev)
    case (HandleSpeak a)
    with fr [OF frame_advisorHandleSpeak [OF frame_refl, where a = a]] show ?thesis
      by (simp add: advisorStep_def)
  next
    case StopPlayback
    with fr [OF frame_advisorStopPlayback [OF frame_refl]] show ?thesis
      by (simp add: advisorStep_def)
  next
    case Unmount
    with p show ?thesis by (simp add: advisorStep_def advisorUnmount_def)
  next
    case (SynthesisSettled t r)
    show ?thesis
    proof (cases "\<exists>tx. map_of (tasks s) t = Some (AwaitSynthesis tx)")
      case False
      with SynthesisSettled p show ?thesis
        by (auto simp: advisorStep_def split: option.splits stage.splits)
    next
      case True
      then obtain tx where tk: "map_of (tasks s) t = Some (AwaitSynthesis tx)" by blast
      show ?thesis
      proof (cases "getTextToSpeechAudio (\<lambda>_. r) tx (language s)")
        case (Inl e)
        with tk SynthesisSettled caught [of t] show ?thesis
          by (simp add: advisorStep_def)
      next
        case (Inr d)
        have "returned (evs @ [ev]) t d"
          unfolding returned_def using SynthesisSettled Inr by auto
        from provenance_advisorAfterSynthesis [OF fr [OF frame_unpark [OF frame_refl]] this]
        show ?thesis using tk SynthesisSettled Inr by (simp add: advisorStep_def)
      qed
    qed
  next
    case (ResumeSettled t ok)
    show ?thesis
    proof (cases "\<exists>d. map_of (tasks s) t = Some (AwaitResume d)")
      case False
      with ResumeSettled p show ?thesis
        by (auto simp: advisorStep_def split: option.splits stage.splits)
    next
      case True
      then obtain d where tk: "map_of (tasks s) t = Some (AwaitResume d)" by blast
      then have "(t, AwaitResume d) \<in> set (tasks s)" by (rule map_of_SomeD)
      with p have rt: "returned (evs @ [ev]) t d" by (simp add: provenance_def)
      show ?thesis
      proof (cases ok)
        case True
        have "frame s ((unpark t s)\<lparr>audioContextRef := Some Running\<rparr>)"
          by (intro frame_rules frame_refl)
        from provenance_advisorAfterResume [OF fr [OF this] rt]
        show ?thesis using tk ResumeSettled True by (simp add: advisorStep_def)
      next
        case False
        with tk ResumeSettled caught [of t] show ?thesis
          by (simp add: advisorStep_def)
      qed
    qed
  next
    case (DecodeAudioDataSettled t r)
    show ?thesis
    proof (cases "\<exists>bs rate channels.
                    map_of (tasks s) t = Some (AwaitDecodeAudioData bs rate channels)")
      case False
      with DecodeAudioDataSettled p show ?thesis
        by (auto simp: advisorStep_def split: option.splits stage.splits)
    next
      case True
      then obtain bs rate channels
        where tk: "map_of (tasks s) t = Some (AwaitDecodeAudioData bs rate channels)"
        by blast
      then have "(t, AwaitDecodeAudioData bs rate channels) \<in> set (tasks s)"
        by (rule map_of_SomeD)
      with p have df: "decodedFrom decode (evs @ [ev]) (trace s) t bs"
        by (simp add: provenance_def)
      show ?thesis
      proof (cases r)
        case None
        with tk DecodeAudioDataSettled caught [of t] show ?thesis
          by (simp add: advisorStep_def)
      next
        case (Some b)
        let ?s1 = "case audioSourceRef (unpark t s) of
                     None \<Rightarrow> unpark t s | Some i \<Rightarrow> sourceStop i (unpark t s)"
        have f: "frame s ?s1"
          by (auto split: option.splits intro!: frame_rules)
        then have m: "set (trace s) \<subseteq> set (trace ?s1)" by (simp add: frame_def)
        have "playsDecoded decode (evs @ [ev]) (trace ?s1) b"
          unfolding playsDecoded_def
          using decodedFrom_mono [OF df subset_refl m] DecodeAudioDataSettled Some by auto
        from provenance_startSource [OF fr [OF f] this]
        show ?thesis using tk DecodeAudioDataSettled Some
          by (simp add: advisorStep_def advisorAfterDecodeAudioData_def)
      qed
    qed
  next
    case (Ended i)
    show ?thesis
    proof (cases "map_of (sources s) i")
      case None
      with Ended p show ?thesis by (simp add: advisorStep_def)
    next
      case (Some n)
      let ?s1 = "emit (SourceEnded i) (setNode i (n\<lparr>status := Finished\<rparr>) s)"
      have f1: "frame s ?s1"
        by (intro frame_emit frame_ended [OF frame_refl Some])
      have f2: "frame s (advisorOnended ?s1)"
        by (intro frame_advisorOnended f1)
      from Ended Some p fr [OF f1] fr [OF f2] show ?thesis
        by (simp add: advisorStep_def Let_def)
    qed
  qed
qed

lemma exec_snoc: "exec decode (evs @ [ev]) s = step decode ev (exec decode evs s)"
  by (simp add: exec_def)

lemma advisorExec_snoc:
  "advisorExec decode (evs @ [ev]) s = advisorStep decode ev (advisorExec decode evs s)"
  by (simp add: advisorExec_def)

lemma provenance_exec: "provenance decode evs (exec decode evs initial)"
proof (induction evs rule: rev_induct)
  case Nil
  show ?case by (simp add: provenance_def exec_def initial_def)
next
  case (snoc ev evs)
  then show ?case by (simp only: exec_snoc provenance_step)
qed

lemma provenance_advisorExec: "provenance decode evs (advisorExec decode evs advisorInitial)"
proof (induction evs rule: rev_induct)
  case Nil
  show ?case by (simp add: provenance_def advisorExec_def advisorInitial_def)
next
  case (snoc ev evs)
  then show ?case by (simp only: advisorExec_snoc provenance_advisorStep)
qed

lemma sourceStop_length [simp]: "length (sources (sourceStop i s)) = length (sources s)"
  by (simp add: sourceStop_sources split: option.splits)

lemma detachOnended_length [simp]: "length (sources (detachOnended i s)) = length (sources s)"
  by (simp add: detachOnended_sources split: option.splits)

lemma numbered_playNextInQueue: "numbered s \<Longrightarrow> numbered (playNextInQueue s)"
  by (auto simp: numbered_def playNextInQueue_def Let_def split: list.splits)

lemma numbered_stopPlayback: "numbered s \<Longrightarrow> numbered (stopPlayback s)"
  by (cases "audioContextRef s" rule: suspendEffects.cases)
     (auto simp: numbered_def stopPlayback_def Let_def split: option.splits)

lemma numbered_handleSpeak: "numbered s \<Longrightarrow> numbered (handleSpeak p s)"
proof (cases p)
  case None
  then show "numbered s \<Longrightarrow> ?thesis" by (simp add: handleSpeak_def)
next
  case (Some a)
  assume d: "numbered s"
  show ?thesis
  proof (cases "isSpeaking s")
    case True
    with Some d show ?thesis by (simp add: handleSpeak_def numbered_stopPlayback)
  next
    case False
    have "numbered ((setIsSpeaking True (setError None s))
                    \<lparr>isStoppedManuallyRef := False, audioQueueRef := textChunks a\<rparr>)"
      using d by (simp add: numbered_def)
    then show ?thesis using Some False
      by (simp add: handleSpeak_def Let_def numbered_playNextInQueue)
  qed
qed

lemma numbered_afterSynthesis: "numbered s \<Longrightarrow> numbered (afterSynthesis decode t d s)"
  by (auto simp: numbered_def afterSynthesis_def afterResume_def Let_def catchSegment_def
           split: option.splits)

lemma numbered_step:
  assumes "numbered s"
  shows "numbered (step decode ev s)"
proof (cases ev)
  case (HandleSpeak p)
  with assms show ?thesis by (simp add: step_def numbered_handleSpeak)
next
  case StopPlayback
  with assms show ?thesis by (simp add: step_def numbered_stopPlayback)
next
  case Unmount
  with assms show ?thesis by (simp add: step_def unmount_def numbered_stopPlayback)
next
  case (SynthesisSettled t r)
  have "numbered (unpark t s)" using assms by (simp add: numbered_def)
  from numbered_afterSynthesis [OF this] this SynthesisSettled assms show ?thesis
    by (auto simp: step_def numbered_def split: option.splits stage.splits sum.splits)
next
  case (ResumeSettled t ok)
  with assms show ?thesis
    by (auto simp: step_def numbered_def afterResume_def
             split: option.splits stage.splits)
next
  case (DecodeAudioDataSettled t r)
  with assms show ?thesis
    by (auto simp: step_def numbered_def afterDecodeAudioData_def
             split: option.splits stage.splits)
next
  case (Ended i)
  show ?thesis
  proof (cases "map_of (sources s) i")
    case None
    with Ended assms show ?thesis by (simp add: step_def)
  next
    case (Some n)
    have a: "numbered (emit (SourceEnded i) (setNode i (n\<lparr>status := Finished\<rparr>) s))"
      using assms by (simp add: numbered_def)
    then have "numbered ((emit (SourceEnded i) (setNode i (n\<lparr>status := Finished\<rparr>) s))
                         \<lparr>audioSourceRef := None\<rparr>)"
      by (simp add: numbered_def)
    then have b: "numbered (onendedSegment
                     (emit (SourceEnded i) (setNode i (n\<lparr>status := Finished\<rparr>) s)))"
      unfolding onendedSegment_def by (rule numbered_playNextInQueue)
    from Ended Some assms a b show ?thesis by (simp add: step_def Let_def)
  qed
qed

lemma numbered_advisorStep:
  assumes "numbered s"
  shows "numbered (advisorStep decode ev s)"
proof (cases ev)
  case (HandleSpeak a)
  with assms show ?thesis
    by (cases "audioContextRef s" rule: suspendEffects.cases)
       (auto simp: advisorStep_def numbered_def advisorHandleSpeak_def advisorStopPlayback_def
             Let_def split: option.splits)
next
  case StopPlayback
  with assms show ?thesis
    by (cases "audioContextRef s" rule: suspendEffects.cases)
       (auto simp: advisorStep_def numbered_def advisorStopPlayback_def Let_def
             split: option.splits)
next
  case Unmount
  with assms show ?thesis by (simp add: advisorStep_def advisorUnmount_def)
next
  case (SynthesisSettled t r)
  with assms show ?thesis
    by (auto simp: advisorStep_def numbered_def advisorAfterSynthesis_def
                   advisorAfterResume_def advisorCatch_def Let_def
             split: option.splits stage.splits sum.splits)
next
  case (ResumeSettled t ok)
  with assms show ?thesis
    by (auto simp: advisorStep_def numbered_def advisorAfterResume_def advisorCatch_def
             split: option.splits stage.splits)
next
  case (DecodeAudioDataSettled t r)
  with assms show ?thesis
    by (auto simp: advisorStep_def numbered_def advisorAfterDecodeAudioData_def advisorCatch_def
             split: option.splits stage.splits)
next
  case (Ended i)
  with assms show ?thesis
    by (auto simp: advisorStep_def numbered_def advisorOnended_def Let_def
             split: option.splits)
qed

lemma numbered_exec: "numbered s \<Longrightarrow> numbered (exec decode evs s)"
  by (induction evs arbitrary: s) (simp_all add: exec_def numbered_step)

lemma numbered_advisorExec: "numbered s \<Longrightarrow> numbered (advisorExec decode evs s)"
  by (induction evs arbitrary: s) (simp_all add: advisorExec_def numbered_advisorStep)

text \<open>
  C7. Whatever happens to either component, the buffer of every source it starts is what
  \<open>decodeAudioData\<close> delivered for a call at 24000 Hz and 1 channel on the bytes that
  \<open>decode\<close> made of the audio data a synthesis returned; every call of
  \<open>decodeAudioData\<close> asks for 24000 Hz and 1 channel (and every context is created at
  24000 Hz); the nodes are exactly the sources started, and they are never more than
  the decodings requested.
\<close>

theorem played_is_decoded_mono_24k:
  fixes evs :: "portfolioPrediction event list" and evs' :: "financialAdvice event list"
  shows
  "(\<forall>p \<in> set (sources (exec decode evs initial)).
      \<exists>t r tx lang d bs.
        SynthesisSettled t r \<in> set evs
        \<and> getTextToSpeechAudio (\<lambda>_. r) tx lang = Inr d
        \<and> decode d = Some bs
        \<and> CallDecodeAudioData bs 24000 1 \<in> set (trace (exec decode evs initial))
        \<and> DecodeAudioDataSettled t (Some (buffer (snd p))) \<in> set evs)
   \<and> list_all mono24k (trace (exec decode evs initial))
   \<and> length (filter isSourceStart (trace (exec decode evs initial)))
       = length (sources (exec decode evs initial))
   \<and> length (filter isSourceStart (trace (exec decode evs initial)))
       \<le> length (filter isDecodeCall (trace (exec decode evs initial)))
   \<and> (\<forall>p \<in> set (sources (advisorExec decode' evs' advisorInitial)).
      \<exists>t r tx lang d bs.
        SynthesisSettled t r \<in> set evs'
        \<and> getTextToSpeechAudio (\<lambda>_. r) tx lang = Inr d
        \<and> decode' d = Some bs
        \<and> CallDecodeAudioData bs 24000 1
             \<in> set (trace (advisorExec decode' evs' advisorInitial))
        \<and> DecodeAudioDataSettled t (Some (buffer (snd p))) \<in> set evs')
   \<and> list_all mono24k (trace (advisorExec decode' evs' advisorInitial))
   \<and> length (filter isSourceStart (trace (advisorExec decode' evs' advisorInitial)))
       = length (sources (advisorExec decode' evs' advisorInitial))
   \<and> length (filter isSourceStart (trace (advisorExec decode' evs' advisorInitial)))
       \<le> length (filter isDecodeCall (trace (advisorExec decode' evs' advisorInitial)))"
proof -
  have "decoded initial" by (simp add: decoded_def initial_def)
  then have p: "decoded (exec decode evs initial)" by (rule decoded_exec)
  have "decoded advisorInitial" by (simp add: decoded_def advisorInitial_def)
  then have a: "decoded (advisorExec decode' evs' advisorInitial)" by (rule decoded_advisorExec)
  have pp: "\<forall>p \<in> set (sources (exec decode evs initial)).
      \<exists>t r tx lang d bs.
        SynthesisSettled t r \<in> set evs
        \<and> getTextToSpeechAudio (\<lambda>_. r) tx lang = Inr d
        \<and> decode d = Some bs
        \<and> CallDecodeAudioData bs 24000 1 \<in> set (trace (exec decode evs initial))
        \<and> DecodeAudioDataSettled t (Some (buffer (snd p))) \<in> set evs"
    using provenance_exec [of decode evs]
    unfolding provenance_def playsDecoded_def decodedFrom_def returned_def by blast
  have pa: "\<forall>p \<in> set (sources (advisorExec decode' evs' advisorInitial)).
      \<exists>t r tx lang d bs.
        SynthesisSettled t r \<in> set evs'
        \<and> getTextToSpeechAudio (\<lambda>_. r) tx lang = Inr d
        \<and> decode' d = Some bs
        \<and> CallDecodeAudioData bs 24000 1
             \<in> set (trace (advisorExec decode' evs' advisorInitial))
        \<and> DecodeAudioDataSettled t (Some (buffer (snd p))) \<in> set evs'"
    using provenance_advisorExec [of decode' evs']
    unfolding provenance_def playsDecoded_def decodedFrom_def returned_def by blast
  have "numbered initial" by (simp add: numbered_def initial_def)
  then have np: "length (filter isSourceStart (trace (exec decode evs initial)))
       = length (sources (exec decode evs initial))"
    using numbered_exec [of initial decode evs] by (simp add: numbered_def)
  have "numbered advisorInitial" by (simp add: numbered_def advisorInitial_def)
  then have na: "length (filter isSourceStart (trace (advisorExec decode' evs' advisorInitial)))
       = length (sources (advisorExec decode' evs' advisorInitial))"
    using numbered_advisorExec [of advisorInitial decode' evs'] by (simp add: numbered_def)
  from p a have
    "list_all mono24k (trace (exec decode evs initial))"
    "length (filter isSourceStart (trace (exec decode evs initial)))
       \<le> length (filter isDecodeCall (trace (exec decode evs initial)))"
    "list_all mono24k (trace (advisorExec decode' evs' advisorInitial))"
    "length (filter isSourceStart (trace (advisorExec decode' evs' advisorInitial)))
       \<le> length (filter isDecodeCall (trace (advisorExec decode' evs' advisorInitial)))"
    unfolding decoded_def by linarith+
  with pp pa np na show ?thesis by blast
qed

lemma playingFirst_source:
  "(0, \<lparr>buffer = [1, 2], onended = True, status = Playing\<rparr>) \<in> set (sources playingFirst)"
  by (simp add: playingFirst_def run_defs handleSpeak_def initial_def samplePrediction_def
        textChunks_def charCodes_def)

lemma advisorPlaying_source:
  "(0, \<lparr>buffer = [1, 2], onended = True, status = Playing\<rparr>) \<in> set (sources advisorPlaying)"
  by (simp add: advisorPlaying_def advisor_defs sampleAdvice_def fullTextToSpeak_def
        charCodes_def)

theorem played_is_decoded_mono_24k_witness:
  "(0, \<lparr>buffer = [1, 2], onended = True, status = Playing\<rparr>) \<in> set (sources playingFirst)
   \<and> (\<exists>t r tx lang d bs.
        SynthesisSettled t r \<in> set (firstEvents samplePrediction)
        \<and> getTextToSpeechAudio (\<lambda>_. r) tx lang = Inr d
        \<and> charCodes d = Some bs
        \<and> CallDecodeAudioData bs 24000 1 \<in> set (trace playingFirst)
        \<and> DecodeAudioDataSettled t (Some [1, 2]) \<in> set (firstEvents samplePrediction))
   \<and> list_all mono24k (trace playingFirst)
   \<and> (0, \<lparr>buffer = [1, 2], onended = True, status = Playing\<rparr>) \<in> set (sources advisorPlaying)
   \<and> (\<exists>t r tx lang d bs.
        SynthesisSettled t r \<in> set (firstEvents sampleAdvice)
        \<and> getTextToSpeechAudio (\<lambda>_. r) tx lang = Inr d
        \<and> charCodes d = Some bs
        \<and> CallDecodeAudioData bs 24000 1 \<in> set (trace advisorPlaying)
        \<and> DecodeAudioDataSettled t (Some [1, 2]) \<in> set (firstEvents sampleAdvice))
   \<and> list_all mono24k (trace advisorPlaying)"
proof -
  note th = played_is_decoded_mono_24k [of charCodes "firstEvents samplePrediction"
      charCodes "firstEvents sampleAdvice"]
  have e1: "exec charCodes (firstEvents samplePrediction) initial = playingFirst"
    by (simp add: playingFirst_def firstEvents_def)
  have e2: "advisorExec charCodes (firstEvents sampleAdvice) advisorInitial = advisorPlaying"
    by (simp add: advisorPlaying_def firstEvents_def)
  from th [unfolded e1 e2] playingFirst_source advisorPlaying_source
  show ?thesis by fastforce
qed

section \<open>One thing at a time\<close>












section \<open>Where the code leaves the specification\<close>

lemmas bug_defs = run_defs handleSpeak_def stopPlayback_def initial_def samplePrediction_def
  textChunks_def charCodes_def activeSources_def

text \<open>
  C1, as the code has it. The claim is that after a stop a synthesis still in flight is
  discarded and nothing is played. In the code the continuation of \<open>playNextInQueue\<close>
  does not look at the stop flag again: speak, stop, and then the audio arrives and is
  decoded; the source is started and sounds, while \<open>isSpeaking\<close> is false.
\<close>

theorem stop_in_flight_still_plays:
  "trace stoppedInFlight =
     [SetError None, SetIsSpeaking True,
      CallSynthesis ''Here is the overall summary of your portfolio prediction: Good'' ''English'',
      SetIsSpeaking False,
      NewAudioContext 24000, CallDecodeAudioData [81, 85, 74, 68] 24000 1, SourceStart 0]
   \<and> activeSources stoppedInFlight = [0]
   \<and> \<not> isSpeaking stoppedInFlight"
  by (simp add: stoppedInFlight_def bug_defs)

text \<open>
  C2, as the code has it. The claim is that at most one source plays at any time. Speak,
  stop, speak again while the first synthesis is in flight: both continuations start a
  source, and two sources sound at once. \<open>FinanceAdvisor\<close>, which stops any previous
  sound before it starts a new one, has one source sounding after the same events.
\<close>

theorem two_sources_play:
  "activeSources restartedInFlight = [0, 1]
   \<and> trace restartedInFlight =
     [SetError None, SetIsSpeaking True,
      CallSynthesis ''Here is the overall summary of your portfolio prediction: Good'' ''English'',
      SetIsSpeaking False,
      SetError None, SetIsSpeaking True,
      CallSynthesis ''Here is the overall summary of your portfolio prediction: Good'' ''English'',
      NewAudioContext 24000, CallDecodeAudioData [81, 85, 74, 68] 24000 1,
      CallDecodeAudioData [81, 85, 74, 68] 24000 1, SourceStart 0, SourceStart 1]
   \<and> activeSources advisorRestarted = [1]"
proof -
  have p: "activeSources restartedInFlight = [0, 1]"
    by (simp add: restartedInFlight_def bug_defs)
  have t: "trace restartedInFlight =
     [SetError None, SetIsSpeaking True,
      CallSynthesis ''Here is the overall summary of your portfolio prediction: Good'' ''English'',
      SetIsSpeaking False,
      SetError None, SetIsSpeaking True,
      CallSynthesis ''Here is the overall summary of your portfolio prediction: Good'' ''English'',
      NewAudioContext 24000, CallDecodeAudioData [81, 85, 74, 68] 24000 1,
      CallDecodeAudioData [81, 85, 74, 68] 24000 1, SourceStart 0, SourceStart 1]"
    by (simp add: restartedInFlight_def bug_defs)
  have a: "activeSources advisorRestarted = [1]"
    by (simp add: advisorRestarted_def advisor_defs advisorStopPlayback_def sampleAdvice_def
          fullTextToSpeak_def charCodes_def activeSources_def sourceStop_sources)
  from p t a show ?thesis by simp
qed

lemma synthesis_RemoteError [simp]:
  "getTextToSpeechAudio (\<lambda>_. RemoteError) tx lang
     = Inl (Error ''Failed to generate speech from the AI.'')"
  by (simp add: getTextToSpeechAudio_def ttsTry_def)

text \<open>
  C5, as the code has it. The claim is that after a failing segment no later segment is
  ever requested. The \<open>catch\<close> block leaves the later segments in the queue, and a
  source started by the continuation of an earlier, stopped session calls
  \<open>playNextInQueue\<close> when it ends: speak, stop, speak; the synthesis of the first
  segment of the new session fails and the error is reported; the audio of the stopped
  session arrives and plays; at its end the second segment of the failed session is
  sent to the synthesis.
\<close>

theorem failed_session_resumes:
  "trace failedThenResumed =
     [SetError None, SetIsSpeaking True,
      CallSynthesis ''Here is the overall summary of your portfolio prediction: Good'' ''English'',
      SetIsSpeaking False,
      SetError None, SetIsSpeaking True,
      CallSynthesis ''Here is the overall summary of your portfolio prediction: Good'' ''English'',
      SetError (Some ''Failed to generate or play audio for a segment.''), SetIsSpeaking False,
      NewAudioContext 24000, CallDecodeAudioData [81, 85, 74, 68] 24000 1, SourceStart 0,
      SourceEnded 0,
      CallSynthesis ''AAPL. Analysis: strong. Outlook: growth'' ''English'']
   \<and> tasks failedThenResumed = [(2, AwaitSynthesis ''AAPL. Analysis: strong. Outlook: growth'')]
   \<and> \<not> isSpeaking failedThenResumed"
  by (simp add: failedThenResumed_def bug_defs catchSegment_def)

text \<open>
  C8, as the code has it. The claim is that every playback component stops on unmount.
  \<open>InvestmentPredictor\<close> does (its source is silent afterwards); \<open>FinanceAdvisor\<close> has
  no cleanup, so unmounting it while it plays changes nothing and the source sounds on.
\<close>

theorem advisor_unmount_keeps_playing:
  "activeSources advisorPlaying = [0]
   \<and> advisorStep charCodes Unmount advisorPlaying = advisorPlaying
   \<and> activeSources (advisorStep charCodes Unmount advisorPlaying) = [0]
   \<and> activeSources (step charCodes Unmount playingFirst) = []"
proof -
  have a: "activeSources advisorPlaying = [0]"
    by (simp add: advisorPlaying_def advisor_defs advisorHandleSpeak_def sampleAdvice_def
          fullTextToSpeak_def charCodes_def activeSources_def)
  have u: "advisorStep charCodes Unmount advisorPlaying = advisorPlaying"
    by (simp add: advisorStep_def advisorUnmount_def)
  have p: "activeSources (step charCodes Unmount playingFirst) = []"
    by (simp add: playingFirst_def unmount_def bug_defs)
  from a u p show ?thesis by simp
qed

end
